theory Spec2Isabelle
  imports Complex_Main "HOL-Library.Word"
begin

unbundle bit_operations_syntax

section \<open>The session controller of imv (src/imv.c)\<close>

text \<open>
  The controller is embedded function by function. Strings stand for the NUL-terminated
  C strings of the source. \<open>unsigned long\<close> is 64 bits wide and \<open>unsigned int\<close> 32 bits
  (LP64). A run of the C program that reaches undefined behaviour is a value of type
  \<open>fault\<close>. The window title, the pixels drawn and the mouse pointer's visibility are
  not part of the model.
\<close>

subsection \<open>Data\<close>

datatype scaling_mode = SCALING_NONE | SCALING_DOWN | SCALING_FULL

datatype background_type = BACKGROUND_SOLID | BACKGROUND_CHEQUERED

datatype fault = NullPointer | BufferOverflow | SignedOverflow

text \<open>
  Modelled from the spec: the source cursor (navigator.c is not among the sources). An
  ordered sequence of identifiers, a current index, and the two poll-and-clear latches.
\<close>

record imv_navigator =
  paths :: "string list"
  cur_path :: nat
  changed :: bool
  wrapped :: bool

text \<open>
  The decode pipeline runs in another thread. What the controller asks of it is recorded as
  the list of calls made; what it answers is an input of each tick. The viewport's geometry
  is recorded the same way, its playing flag is a field.
\<close>

datatype loader_call =
    Load string "8 word list option" nat
  | TimePassed real
  | LoadNextFrame

datatype zoom_source = IMV_ZOOM_MOUSE | IMV_ZOOM_KEYBOARD

datatype view_call =
    ScaleToActual
  | ScaleToWindow
  | Zoom zoom_source int
  | Move int int
  | Center
  | Update
  | ToggleFullscreen

record imv_viewport =
  playing :: bool
  view_calls :: "view_call list"

datatype handler =
    H_quit | H_pan | H_select_rel | H_select_abs | H_zoom | H_remove | H_fullscreen | H_overlay

datatype command = Handler handler | Alias string

record imv =
  quit :: bool
  fullscreen :: bool
  overlay_enabled :: bool
  nearest_neighbour :: bool
  need_redraw :: bool
  need_rescale :: bool
  recursive_load :: bool
  cycle_input :: bool
  list_at_exit :: bool
  paths_from_stdin :: bool
  scaling :: scaling_mode
  background :: background_type
  background_color :: "8 word \<times> 8 word \<times> 8 word"
  slideshow_image_duration :: "64 word"
  slideshow_time_elapsed :: "64 word"
  font_name :: string
  navigator :: imv_navigator
  loader :: "loader_call list"
  commands :: "(string \<times> command) list"
  view :: imv_viewport
  stdin_image_data :: "8 word list option"
  stdin_image_data_len :: nat
  input_buffer :: "string option"
  starting_path :: "string option"
  window :: bool
  renderer :: bool
  font :: bool
  sdl_init :: bool
  ttf_init :: bool
  renders :: nat
  stderr_log :: "string list"
  stdout_log :: "string list"

subsection \<open>The C library's number scanning\<close>

definition isspace :: "char \<Rightarrow> bool" where
  "isspace c = (c = CHR '' '' \<or> (9 \<le> (of_char c :: nat) \<and> (of_char c :: nat) \<le> 13))"

definition digit_of :: "char \<Rightarrow> nat option" where
  "digit_of c =
     (let n = (of_char c :: nat) in
      if 48 \<le> n \<and> n \<le> 57 then Some (n - 48)
      else if 97 \<le> n \<and> n \<le> 122 then Some (n - 87)
      else if 65 \<le> n \<and> n \<le> 90 then Some (n - 55)
      else None)"

definition is_digit :: "nat \<Rightarrow> char \<Rightarrow> bool" where
  "is_digit base c = (case digit_of c of Some d \<Rightarrow> d < base | None \<Rightarrow> False)"

definition digits_value :: "nat \<Rightarrow> string \<Rightarrow> int" where
  "digits_value base ds =
     foldl (\<lambda>acc c. case digit_of c of Some d \<Rightarrow> acc * int base + int d | None \<Rightarrow> acc) 0 ds"

text \<open>
  The subject sequence of \<open>strtol\<close> and \<open>strtoul\<close>: white space, an optional sign, for base
  16 an optional \<open>0x\<close> that a hexadecimal digit follows, then the longest run of digits.
  The result is the sign, the magnitude and what follows the digits; \<open>None\<close> when there is
  no digit, where the C functions return 0 and leave the end pointer at the start.
\<close>

definition skip_sign :: "string \<Rightarrow> string" where
  "skip_sign s = (case s of c # r \<Rightarrow> if c = CHR ''-'' \<or> c = CHR ''+'' then r else s | [] \<Rightarrow> s)"

definition negative :: "string \<Rightarrow> bool" where
  "negative s = (case s of c # r \<Rightarrow> c = CHR ''-'' | [] \<Rightarrow> False)"

definition skip_0x :: "nat \<Rightarrow> string \<Rightarrow> string" where
  "skip_0x base s =
     (case s of
        z # x # h # r \<Rightarrow>
          if base = 16 \<and> z = CHR ''0'' \<and> (x = CHR ''x'' \<or> x = CHR ''X'') \<and> is_digit 16 h
          then h # r else s
      | _ \<Rightarrow> s)"

definition scan_integer :: "nat \<Rightarrow> string \<Rightarrow> (bool \<times> int \<times> string) option" where
  "scan_integer base s =
     (let s1 = dropWhile isspace s;
          s3 = skip_0x base (skip_sign s1);
          ds = takeWhile (is_digit base) s3
      in if ds = [] then None
         else Some (negative s1, digits_value base ds, dropWhile (is_digit base) s3))"

definition strtoul :: "nat \<Rightarrow> string \<Rightarrow> 64 word \<times> string" where
  "strtoul base s =
     (case scan_integer base s of
        None \<Rightarrow> (0, s)
      | Some (neg, m, rest) \<Rightarrow>
          (if m \<ge> 2 ^ 64 then - 1 else if neg then - (word_of_int m) else word_of_int m, rest))"

definition strtol :: "nat \<Rightarrow> string \<Rightarrow> int \<times> string" where
  "strtol base s =
     (case scan_integer base s of
        None \<Rightarrow> (0, s)
      | Some (neg, m, rest) \<Rightarrow>
          (if neg then (if m > 2 ^ 63 then - (2 ^ 63) else - m)
           else (if m \<ge> 2 ^ 63 then 2 ^ 63 - 1 else m), rest))"

text \<open>The conversion of a \<open>long\<close> to the \<open>int\<close> parameter of a callee.\<close>

definition long_to_int :: "int \<Rightarrow> int" where
  "long_to_int v = sint (word_of_int v :: 32 word)"

subsection \<open>Source cursor\<close>

text \<open>Modelled from the spec: \<open>current() -> identifier or none\<close>.\<close>

definition imv_navigator_selection :: "imv_navigator \<Rightarrow> string option" where
  "imv_navigator_selection nav =
     (if cur_path nav < length (paths nav) then Some (paths nav ! cur_path nav) else None)"

text \<open>Modelled from the spec: a new cursor is empty, with no latch set.\<close>

definition imv_navigator_create :: imv_navigator where
  "imv_navigator_create = \<lparr>paths = [], cur_path = 0, changed = False, wrapped = False\<rparr>"

text \<open>
  Modelled from the spec: \<open>add\<close> appends the identifier and changes neither the index nor
  the changed latch. The expansion of a directory reads the file system and is left out.
\<close>

definition imv_navigator_add :: "imv_navigator \<Rightarrow> string \<Rightarrow> bool \<Rightarrow> imv_navigator" where
  "imv_navigator_add nav path recursive = nav\<lparr>paths := paths nav @ [path]\<rparr>"

text \<open>
  Modelled from the spec: \<open>remove\<close> removes the first occurrence; the index keeps its number
  if that is still in range, else it becomes the new last element; the changed latch is set
  when the current identifier differs afterwards.
\<close>

definition imv_navigator_remove :: "imv_navigator \<Rightarrow> string \<Rightarrow> imv_navigator" where
  "imv_navigator_remove nav path =
     (let ps = remove1 path (paths nav);
          nav' = nav\<lparr>paths := ps,
                     cur_path := (if cur_path nav < length ps then cur_path nav else length ps - 1)\<rparr>
      in nav'\<lparr>changed := (changed nav \<or> imv_navigator_selection nav' \<noteq> imv_navigator_selection nav)\<rparr>)"

text \<open>
  Modelled from the spec: \<open>select_relative\<close> moves the index by \<open>delta\<close> modulo the length;
  crossing either end sets the wrapped latch; a mutated index sets the changed latch; on an
  empty cursor nothing happens.
\<close>

definition imv_navigator_select_rel :: "imv_navigator \<Rightarrow> int \<Rightarrow> imv_navigator" where
  "imv_navigator_select_rel nav delta =
     (if paths nav = [] then nav
      else
        let n = int (length (paths nav));
            target = int (cur_path nav) + delta;
            idx = nat (target mod n)
        in nav\<lparr>cur_path := idx,
                wrapped := (wrapped nav \<or> target < 0 \<or> target \<ge> n),
                changed := (changed nav \<or> idx \<noteq> cur_path nav)\<rparr>)"

text \<open>Modelled from the spec: both polls return the latch and clear it.\<close>

definition imv_navigator_poll_changed :: "imv_navigator \<Rightarrow> bool \<times> imv_navigator" where
  "imv_navigator_poll_changed nav = (changed nav, nav\<lparr>changed := False\<rparr>)"

definition imv_navigator_wrapped :: "imv_navigator \<Rightarrow> bool \<times> imv_navigator" where
  "imv_navigator_wrapped nav = (wrapped nav, nav\<lparr>wrapped := False\<rparr>)"

subsection \<open>Command handlers\<close>

definition view_do :: "view_call \<Rightarrow> imv \<Rightarrow> imv" where
  "view_do c s = s\<lparr>view := (view s)\<lparr>view_calls := view_calls (view s) @ [c]\<rparr>\<rparr>"

definition loader_do :: "loader_call \<Rightarrow> imv \<Rightarrow> imv" where
  "loader_do c s = s\<lparr>loader := loader s @ [c]\<rparr>"

definition command_quit :: "string list \<Rightarrow> imv \<Rightarrow> fault + imv" where
  "command_quit args s = Inr (s\<lparr>quit := True\<rparr>)"

definition command_pan :: "string list \<Rightarrow> imv \<Rightarrow> fault + imv" where
  "command_pan args s =
     (if length args \<noteq> 3 then Inr s
      else
        let x = fst (strtol 10 (args ! 1));
            y = fst (strtol 10 (args ! 2))
        in Inr (view_do (Move (long_to_int x) (long_to_int y)) s))"

definition command_select_rel :: "string list \<Rightarrow> imv \<Rightarrow> fault + imv" where
  "command_select_rel args s =
     (if length args \<noteq> 2 then Inr s
      else
        let index = fst (strtol 10 (args ! 1))
        in Inr (s\<lparr>navigator := imv_navigator_select_rel (navigator s) (long_to_int index),
                  slideshow_time_elapsed := 0\<rparr>))"

definition command_select_abs :: "string list \<Rightarrow> imv \<Rightarrow> fault + imv" where
  "command_select_abs args s = Inr s"

definition command_zoom :: "string list \<Rightarrow> imv \<Rightarrow> fault + imv" where
  "command_zoom args s = Inr s"

text \<open>\<open>strdup\<close> of the null pointer that an empty cursor's selection is, is undefined.\<close>

definition command_remove :: "string list \<Rightarrow> imv \<Rightarrow> fault + imv" where
  "command_remove args s =
     (case imv_navigator_selection (navigator s) of
        None \<Rightarrow> Inl NullPointer
      | Some path \<Rightarrow>
          Inr (s\<lparr>navigator := imv_navigator_remove (navigator s) path,
                  slideshow_time_elapsed := 0\<rparr>))"

definition command_fullscreen :: "string list \<Rightarrow> imv \<Rightarrow> fault + imv" where
  "command_fullscreen args s = Inr (view_do ToggleFullscreen s)"

definition command_overlay :: "string list \<Rightarrow> imv \<Rightarrow> fault + imv" where
  "command_overlay args s = Inr (s\<lparr>overlay_enabled := \<not> overlay_enabled s, need_redraw := True\<rparr>)"

fun run_handler :: "handler \<Rightarrow> string list \<Rightarrow> imv \<Rightarrow> fault + imv" where
  "run_handler H_quit = command_quit"
| "run_handler H_pan = command_pan"
| "run_handler H_select_rel = command_select_rel"
| "run_handler H_select_abs = command_select_abs"
| "run_handler H_zoom = command_zoom"
| "run_handler H_remove = command_remove"
| "run_handler H_fullscreen = command_fullscreen"
| "run_handler H_overlay = command_overlay"

subsection \<open>Command registry\<close>

text \<open>
  Modelled from the spec: commands.c is not among the sources. Registering a name again
  replaces its entry; a line is split on white space; an alias expands once, to a line
  whose tokens go before the user's arguments and whose name must be a handler's; an
  unknown name is ignored.
\<close>

definition imv_command_register :: "(string \<times> command) list \<Rightarrow> string \<Rightarrow> handler \<Rightarrow> (string \<times> command) list" where
  "imv_command_register cmds name h = (name, Handler h) # filter (\<lambda>e. fst e \<noteq> name) cmds"

definition imv_command_alias :: "(string \<times> command) list \<Rightarrow> string \<Rightarrow> string \<Rightarrow> (string \<times> command) list" where
  "imv_command_alias cmds name line = (name, Alias line) # filter (\<lambda>e. fst e \<noteq> name) cmds"

fun split_ws :: "string \<Rightarrow> string \<Rightarrow> string list" where
  "split_ws acc [] = (if acc = [] then [] else [acc])"
| "split_ws acc (c # cs) =
     (if isspace c then (if acc = [] then split_ws [] cs else acc # split_ws [] cs)
      else split_ws (acc @ [c]) cs)"

definition imv_command_exec :: "string \<Rightarrow> imv \<Rightarrow> fault + imv" where
  "imv_command_exec line s =
     (case split_ws [] line of
        [] \<Rightarrow> Inr s
      | name # args \<Rightarrow>
          (case map_of (commands s) name of
             None \<Rightarrow> Inr s
           | Some (Handler h) \<Rightarrow> run_handler h (name # args) s
           | Some (Alias expansion) \<Rightarrow>
               (case split_ws [] expansion of
                  [] \<Rightarrow> Inr s
                | name' # args' \<Rightarrow>
                    (case map_of (commands s) name' of
                       Some (Handler h) \<Rightarrow> run_handler h (name' # args' @ args) s
                     | _ \<Rightarrow> Inr s))))"

subsection \<open>imv_create\<close>

definition default_commands :: "(string \<times> command) list" where
  "default_commands =
     (let c1 = imv_command_register [] ''quit'' H_quit;
          c2 = imv_command_register c1 ''pan'' H_pan;
          c3 = imv_command_register c2 ''select_rel'' H_select_rel;
          c4 = imv_command_register c3 ''select_abs'' H_select_abs;
          c5 = imv_command_register c4 ''zoom'' H_zoom;
          c6 = imv_command_register c5 ''remove'' H_remove;
          c7 = imv_command_register c6 ''fullscreen'' H_fullscreen;
          c8 = imv_command_register c7 ''overlay'' H_overlay;
          a1 = imv_command_alias c8 ''q'' ''quit'';
          a2 = imv_command_alias a1 ''next'' ''select_rel 1'';
          a3 = imv_command_alias a2 ''previous'' ''select_rel -1'';
          a4 = imv_command_alias a3 ''n'' ''select_rel 1''
      in imv_command_alias a4 ''p'' ''select_rel -1'')"

text \<open>
  \<open>imv_create\<close> leaves \<open>background_type\<close> unset; the model starts it at the enum's first
  value. The viewport is created by \<open>setup_window\<close>; the model has it from the start, not
  playing and with no call made.
\<close>

definition imv_create :: imv where
  "imv_create =
     \<lparr>quit = False, fullscreen = False, overlay_enabled = False, nearest_neighbour = False,
      need_redraw = True, need_rescale = True, recursive_load = False, cycle_input = True,
      list_at_exit = False, paths_from_stdin = False, scaling = SCALING_FULL,
      background = BACKGROUND_SOLID, background_color = (0, 0, 0),
      slideshow_image_duration = 0, slideshow_time_elapsed = 0, font_name = ''Monospace:24'',
      navigator = imv_navigator_create, loader = [], commands = default_commands,
      view = \<lparr>playing = False, view_calls = []\<rparr>,
      stdin_image_data = None, stdin_image_data_len = 0, input_buffer = None,
      starting_path = None, window = False, renderer = False, font = False,
      sdl_init = False, ttf_init = False, renders = 0, stderr_log = [], stdout_log = []\<rparr>"

subsection \<open>handle_event\<close>

datatype keysym =
    SDLK_ESCAPE | SDLK_RETURN | SDLK_BACKSPACE | SDLK_SEMICOLON | SDLK_q
  | SDLK_LEFTBRACKET | SDLK_LEFT | SDLK_RIGHTBRACKET | SDLK_RIGHT
  | SDLK_EQUALS | SDLK_PLUS | SDLK_i | SDLK_UP | SDLK_MINUS | SDLK_o | SDLK_DOWN
  | SDLK_s | SDLK_r | SDLK_a | SDLK_c | SDLK_j | SDLK_k | SDLK_h | SDLK_l
  | SDLK_x | SDLK_f | SDLK_PERIOD | SDLK_SPACE | SDLK_p | SDLK_d | SDLK_t
  | SDLK_unbound nat

text \<open>
  A key press carries its key, whether a shift key is held (\<open>KMOD_SHIFT\<close>), whether caps
  lock is on (\<open>KMOD_CAPS\<close>) and whether it is a repeat. A mouse motion carries whether the
  left button is held, and the relative motion.
\<close>

datatype sdl_event =
    SDL_QUIT
  | SDL_TEXTINPUT string
  | SDL_KEYDOWN keysym bool bool bool
  | SDL_MOUSEWHEEL int
  | SDL_MOUSEMOTION bool int int
  | SDL_WINDOWEVENT
  | SDL_ignored

definition command_buffer_len :: nat where
  "command_buffer_len = 1024"

text \<open>
  \<open>strncat(dest, src, n)\<close> on a destination array of \<open>cap\<close> bytes holding the string
  \<open>dest\<close>: at most \<open>n\<close> characters of \<open>src\<close> and a terminating NUL are written after the
  end of \<open>dest\<close>. A write beyond the array is undefined behaviour.
\<close>

definition strncat :: "nat \<Rightarrow> string \<Rightarrow> string \<Rightarrow> nat \<Rightarrow> fault + string" where
  "strncat cap dest src n =
     (if length dest + length (take n src) + 1 > cap then Inl BufferOverflow
      else Inr (dest @ take n src))"

definition next_scaling_mode :: "scaling_mode \<Rightarrow> scaling_mode" where
  "next_scaling_mode m =
     (case m of SCALING_NONE \<Rightarrow> SCALING_DOWN | SCALING_DOWN \<Rightarrow> SCALING_FULL | SCALING_FULL \<Rightarrow> SCALING_NONE)"

definition mark_rescale :: "bool \<Rightarrow> imv \<Rightarrow> imv" where
  "mark_rescale rep s = (if \<not> rep then s\<lparr>need_rescale := True, need_redraw := True\<rparr> else s)"

text \<open>The key press in command mode: the branch under \<open>if(imv->input_buffer)\<close>.\<close>

definition handle_key_command_mode :: "string \<Rightarrow> keysym \<Rightarrow> imv \<Rightarrow> fault + imv" where
  "handle_key_command_mode buf key s =
     (if key = SDLK_ESCAPE then Inr (s\<lparr>input_buffer := None, need_redraw := True\<rparr>)
      else if key = SDLK_RETURN then
        (case imv_command_exec buf s of
           Inl f \<Rightarrow> Inl f
         | Inr s' \<Rightarrow> Inr (s'\<lparr>input_buffer := None, need_redraw := True\<rparr>))
      else if key = SDLK_BACKSPACE then
        (if length buf > 0 then Inr (s\<lparr>input_buffer := Some (butlast buf), need_redraw := True\<rparr>)
         else Inr s)
      else Inr s)"

text \<open>The key bindings outside command mode: the inner \<open>switch\<close>.\<close>

definition handle_key_normal :: "keysym \<Rightarrow> bool \<Rightarrow> bool \<Rightarrow> bool \<Rightarrow> imv \<Rightarrow> fault + imv" where
  "handle_key_normal key shift caps rep s =
     (case key of
        SDLK_SEMICOLON \<Rightarrow>
          (if shift then Inr (s\<lparr>input_buffer := Some [], need_redraw := True\<rparr>) else Inr s)
      | SDLK_q \<Rightarrow> imv_command_exec ''quit'' (s\<lparr>quit := True\<rparr>)
      | SDLK_LEFTBRACKET \<Rightarrow> imv_command_exec ''select_rel -1'' s
      | SDLK_LEFT \<Rightarrow> imv_command_exec ''select_rel -1'' s
      | SDLK_RIGHTBRACKET \<Rightarrow> imv_command_exec ''select_rel 1'' s
      | SDLK_RIGHT \<Rightarrow> imv_command_exec ''select_rel 1'' s
      | SDLK_EQUALS \<Rightarrow> Inr (view_do (Zoom IMV_ZOOM_KEYBOARD 1) s)
      | SDLK_PLUS \<Rightarrow> Inr (view_do (Zoom IMV_ZOOM_KEYBOARD 1) s)
      | SDLK_i \<Rightarrow> Inr (view_do (Zoom IMV_ZOOM_KEYBOARD 1) s)
      | SDLK_UP \<Rightarrow> Inr (view_do (Zoom IMV_ZOOM_KEYBOARD 1) s)
      | SDLK_MINUS \<Rightarrow> Inr (view_do (Zoom IMV_ZOOM_KEYBOARD (- 1)) s)
      | SDLK_o \<Rightarrow> Inr (view_do (Zoom IMV_ZOOM_KEYBOARD (- 1)) s)
      | SDLK_DOWN \<Rightarrow> Inr (view_do (Zoom IMV_ZOOM_KEYBOARD (- 1)) s)
      | SDLK_s \<Rightarrow>
          Inr (mark_rescale rep
                 (if \<not> rep then s\<lparr>scaling := next_scaling_mode (scaling s)\<rparr> else s))
      | SDLK_r \<Rightarrow> Inr (mark_rescale rep s)
      | SDLK_a \<Rightarrow> Inr (if \<not> rep then view_do ScaleToActual s else s)
      | SDLK_c \<Rightarrow> Inr (if \<not> rep then view_do Center s else s)
      | SDLK_j \<Rightarrow> imv_command_exec ''pan 0 -50'' s
      | SDLK_k \<Rightarrow> imv_command_exec ''pan 0 50'' s
      | SDLK_h \<Rightarrow> imv_command_exec ''pan 50 0'' s
      | SDLK_l \<Rightarrow> imv_command_exec ''pan -50 0'' s
      | SDLK_x \<Rightarrow> (if \<not> rep then imv_command_exec ''remove'' s else Inr s)
      | SDLK_f \<Rightarrow> (if \<not> rep then imv_command_exec ''fullscreen'' s else Inr s)
      | SDLK_PERIOD \<Rightarrow> Inr (loader_do LoadNextFrame s)
      | SDLK_SPACE \<Rightarrow>
          Inr (if \<not> rep then s\<lparr>view := (view s)\<lparr>playing := \<not> playing (view s)\<rparr>\<rparr> else s)
      | SDLK_p \<Rightarrow>
          (if \<not> rep then
             (case imv_navigator_selection (navigator s) of
                None \<Rightarrow> Inl NullPointer
              | Some path \<Rightarrow> Inr (s\<lparr>stdout_log := stdout_log s @ [path]\<rparr>))
           else Inr s)
      | SDLK_d \<Rightarrow> (if \<not> rep then imv_command_exec ''overlay'' s else Inr s)
      | SDLK_t \<Rightarrow>
          Inr ((if shift \<or> caps then
                  (if slideshow_image_duration s \<ge> 1000
                   then s\<lparr>slideshow_image_duration := slideshow_image_duration s - 1000\<rparr>
                   else s)
                else s\<lparr>slideshow_image_duration := slideshow_image_duration s + 1000\<rparr>)
               \<lparr>need_redraw := True\<rparr>)
      | _ \<Rightarrow> Inr s)"

definition handle_event :: "imv \<Rightarrow> sdl_event \<Rightarrow> fault + imv" where
  "handle_event s event =
     (case event of
        SDL_QUIT \<Rightarrow> imv_command_exec ''quit'' s
      | SDL_TEXTINPUT text \<Rightarrow>
          (case input_buffer s of
             None \<Rightarrow> Inl NullPointer
           | Some buf \<Rightarrow>
               (case strncat command_buffer_len buf text (command_buffer_len - 1) of
                  Inl f \<Rightarrow> Inl f
                | Inr buf' \<Rightarrow> Inr (s\<lparr>input_buffer := Some buf', need_redraw := True\<rparr>)))
      | SDL_KEYDOWN key shift caps rep \<Rightarrow>
          (case input_buffer s of
             Some buf \<Rightarrow> handle_key_command_mode buf key s
           | None \<Rightarrow> handle_key_normal key shift caps rep s)
      | SDL_MOUSEWHEEL y \<Rightarrow> Inr (view_do (Zoom IMV_ZOOM_MOUSE y) s)
      | SDL_MOUSEMOTION left xrel yrel \<Rightarrow> Inr (if left then view_do (Move xrel yrel) s else s)
      | SDL_WINDOWEVENT \<Rightarrow> Inr (view_do Update s)
      | SDL_ignored \<Rightarrow> Inr s)"

text \<open>\<open>while(!imv->quit && SDL_PollEvent(&e)) handle_event(imv, &e);\<close>\<close>

fun drain_events :: "imv \<Rightarrow> sdl_event list \<Rightarrow> fault + imv" where
  "drain_events s [] = Inr s"
| "drain_events s (e # es) =
     (if quit s then Inr s
      else case handle_event s e of Inl f \<Rightarrow> Inl f | Inr s' \<Rightarrow> drain_events s' es)"

subsection \<open>One iteration of the loop of imv_run\<close>

text \<open>
  What the outside world answers during one iteration: the pending events, the loader's
  error and image (width, height, whether it is a new image), the window's size, the
  clock, whether the viewport asks for a redraw, and what polling standard input gives.
\<close>

datatype stdin_poll = PollFailed | PollQuiet | ReadFailed | ReadEof | ReadLine string

record tick_input =
  events :: "sdl_event list"
  load_error :: "string option"
  image :: "(int \<times> int \<times> bool) option"
  window_size :: "int \<times> int"
  ticks :: "32 word"
  viewport_redraw :: bool
  stdin :: stdin_poll

text \<open>The session and the local variables of \<open>imv_run\<close>.\<close>

record run_state =
  st :: imv
  iw :: int
  ih :: int
  last_time :: "32 word"

datatype step = Fault fault | Break run_state | Next run_state

text \<open>Lines 406 to 421: an image that failed to load leaves the list.\<close>

definition remove_failed :: "string option \<Rightarrow> imv \<Rightarrow> imv" where
  "remove_failed err s =
     (case err of
        None \<Rightarrow> s
      | Some err_path \<Rightarrow>
          (let s1 = s\<lparr>navigator := imv_navigator_remove (navigator s) err_path\<rparr> in
           if err_path = ''-'' then
             (let s2 = (case stdin_image_data s1 of
                          Some d \<Rightarrow> s1\<lparr>stdin_image_data := None, stdin_image_data_len := 0\<rparr>
                        | None \<Rightarrow> s1)
              in s2\<lparr>stderr_log := stderr_log s2 @ [''Failed to load image from stdin.'']\<rparr>)
           else s1))"

text \<open>Lines 423 to 426; the latch is read only when cycling is off.\<close>

definition check_wrapped :: "imv \<Rightarrow> bool \<times> imv" where
  "check_wrapped s =
     (if cycle_input s then (False, s)
      else (fst (imv_navigator_wrapped (navigator s)),
            s\<lparr>navigator := snd (imv_navigator_wrapped (navigator s))\<rparr>))"

text \<open>Lines 445 to 447: the load request.\<close>

definition start_loading :: "string \<Rightarrow> imv \<Rightarrow> imv" where
  "start_loading current_path s =
     (let s1 = loader_do (Load current_path (stdin_image_data s) (stdin_image_data_len s)) s
      in s1\<lparr>view := (view s1)\<lparr>playing := True\<rparr>\<rparr>)"

text \<open>Lines 451 to 461.\<close>

definition take_image :: "(int \<times> int \<times> bool) option \<Rightarrow> run_state \<Rightarrow> run_state" where
  "take_image img rs =
     (case img of
        None \<Rightarrow> rs
      | Some (w, h, is_new_image) \<Rightarrow>
          rs\<lparr>iw := w, ih := h,
             st := (st rs)\<lparr>need_redraw := True,
                            need_rescale := (need_rescale (st rs) \<or> is_new_image)\<rparr>\<rparr>)"

text \<open>Lines 463 to 474.\<close>

definition rescale :: "int \<times> int \<Rightarrow> run_state \<Rightarrow> run_state" where
  "rescale win rs =
     (if need_rescale (st rs) then
        (let ww = fst win; wh = snd win;
             s1 = (st rs)\<lparr>need_rescale := False\<rparr>
         in if scaling s1 = SCALING_NONE \<or> (scaling s1 = SCALING_DOWN \<and> ww > iw rs \<and> wh > ih rs)
            then rs\<lparr>st := view_do ScaleToActual s1\<rparr>
            else rs\<lparr>st := view_do ScaleToWindow s1\<rparr>)
      else rs)"

text \<open>
  Lines 477 to 490. The loader is given \<open>dt / 1000.0\<close>; the model gives the exact quotient
  and not its rounding to a \<open>double\<close>.
\<close>

definition time_passed :: "32 word \<Rightarrow> run_state \<Rightarrow> run_state" where
  "time_passed current_time rs =
     (if playing (view (st rs)) then
        (let dt = current_time - last_time rs;
             dt' = (if dt > 100 then 100 else dt)
         in rs\<lparr>st := loader_do (TimePassed (real (unat dt') / 1000)) (st rs)\<rparr>)
      else rs)"

text \<open>Lines 492 to 502.\<close>

definition slideshow :: "32 word \<Rightarrow> run_state \<Rightarrow> run_state" where
  "slideshow current_time rs =
     (if slideshow_image_duration (st rs) \<noteq> 0 then
        (let dt = current_time - last_time rs;
             s1 = (st rs)\<lparr>slideshow_time_elapsed := slideshow_time_elapsed (st rs) + ucast dt,
                          need_redraw := True\<rparr>
         in if slideshow_time_elapsed s1 \<ge> slideshow_image_duration s1
            then rs\<lparr>st := s1\<lparr>navigator := imv_navigator_select_rel (navigator s1) 1,
                              slideshow_time_elapsed := 0\<rparr>\<rparr>
            else rs\<lparr>st := s1\<rparr>)
      else rs)"

text \<open>Lines 507 to 515; \<open>render_window\<close> ends by clearing the flag.\<close>

definition redraw :: "bool \<Rightarrow> imv \<Rightarrow> imv" where
  "redraw dirty s =
     (let s1 = (if dirty then s\<lparr>need_redraw := True\<rparr> else s)
      in if need_redraw s1 then s1\<lparr>renders := renders s1 + 1, need_redraw := False\<rparr> else s1)"

definition imv_add_path :: "string \<Rightarrow> imv \<Rightarrow> imv" where
  "imv_add_path path s = s\<lparr>navigator := imv_navigator_add (navigator s) path (recursive_load s)\<rparr>"

text \<open>
  \<open>check_stdin_for_paths\<close>. \<open>PollFailed\<close>: \<open>poll\<close> did not return 1, or reported an error.
  \<open>ReadLine buf\<close>: \<open>fgets\<close> filled \<open>buf\<close>; an empty \<open>buf\<close> makes \<open>buf[len-1]\<close> a read before
  the array.
\<close>

definition check_stdin_for_paths :: "stdin_poll \<Rightarrow> imv \<Rightarrow> fault + imv" where
  "check_stdin_for_paths p s =
     (case p of
        PollFailed \<Rightarrow> Inr (s\<lparr>stderr_log := stderr_log s @ [''error polling stdin''], quit := True\<rparr>)
      | PollQuiet \<Rightarrow> Inr s
      | ReadFailed \<Rightarrow> Inr s
      | ReadEof \<Rightarrow>
          Inr (s\<lparr>paths_from_stdin := False, stderr_log := stderr_log s @ [''done with stdin\<newline>'']\<rparr>)
      | ReadLine buf \<Rightarrow>
          (if buf = [] then Inl BufferOverflow
           else
             let line = (if last buf = CHR ''\<newline>'' then butlast buf else buf)
             in if length line > 0 then Inr ((imv_add_path line s)\<lparr>need_redraw := True\<rparr>)
                else Inr s))"

text \<open>Lines 517 to 523.\<close>

definition feed_or_sleep :: "stdin_poll \<Rightarrow> run_state \<Rightarrow> step" where
  "feed_or_sleep p rs =
     (if paths_from_stdin (st rs) then
        (case check_stdin_for_paths p (st rs) of
           Inl f \<Rightarrow> Fault f
         | Inr s' \<Rightarrow> Next (rs\<lparr>st := s'\<rparr>))
      else Next rs)"

text \<open>Lines 451 to 523: the iteration from the image poll on.\<close>

definition show_and_wait :: "tick_input \<Rightarrow> run_state \<Rightarrow> step" where
  "show_and_wait inp rs =
     (let r1 = take_image (image inp) rs;
          r2 = rescale (window_size inp) r1;
          r3 = time_passed (ticks inp) r2;
          r4 = slideshow (ticks inp) r3;
          r5 = r4\<lparr>last_time := ticks inp\<rparr>;
          r6 = r5\<lparr>st := redraw (viewport_redraw inp) (st r5)\<rparr>
      in feed_or_sleep (stdin inp) r6)"

text \<open>Lines 428 to 448; an empty cursor ends the iteration with \<open>continue\<close>.\<close>

definition load_changed :: "tick_input \<Rightarrow> run_state \<Rightarrow> step" where
  "load_changed inp rs =
     (let s = st rs;
          s1 = s\<lparr>navigator := snd (imv_navigator_poll_changed (navigator s))\<rparr>
      in if fst (imv_navigator_poll_changed (navigator s)) then
           (case imv_navigator_selection (navigator s1) of
              None \<Rightarrow>
                (if \<not> paths_from_stdin s1
                 then Next (rs\<lparr>st := s1\<lparr>stderr_log := stderr_log s1 @ [''No input files left. Exiting.''],
                                        quit := True\<rparr>\<rparr>)
                 else Next (rs\<lparr>st := s1\<rparr>))
            | Some current_path \<Rightarrow> show_and_wait inp (rs\<lparr>st := start_loading current_path s1\<rparr>))
         else show_and_wait inp (rs\<lparr>st := s1\<rparr>))"

text \<open>Lines 406 to 523: the iteration after the events.\<close>

definition after_events :: "tick_input \<Rightarrow> run_state \<Rightarrow> step" where
  "after_events inp rs =
     (let s2 = remove_failed (load_error inp) (st rs)
      in if fst (check_wrapped s2) then Break (rs\<lparr>st := snd (check_wrapped s2)\<rparr>)
         else load_changed inp (rs\<lparr>st := snd (check_wrapped s2)\<rparr>))"

text \<open>The body of \<open>while(!imv->quit)\<close>.\<close>

definition tick :: "tick_input \<Rightarrow> run_state \<Rightarrow> step" where
  "tick inp rs =
     (case drain_events (st rs) (events inp) of
        Inl f \<Rightarrow> Fault f
      | Inr s1 \<Rightarrow>
          (if quit s1 then Break (rs\<lparr>st := s1\<rparr>) else after_events inp (rs\<lparr>st := s1\<rparr>)))"

text \<open>
  The loop over the iterations whose inputs are given. \<open>Stopped\<close>: the loop was left, by the
  quit flag or by \<open>break\<close>. \<open>Running\<close>: the inputs ran out with the loop still going.
\<close>

datatype run_result = Faulted fault | Stopped run_state | Running run_state

fun main_loop :: "tick_input list \<Rightarrow> run_state \<Rightarrow> run_result" where
  "main_loop [] rs = (if quit (st rs) then Stopped rs else Running rs)"
| "main_loop (inp # inps) rs =
     (if quit (st rs) then Stopped rs
      else case tick inp rs of
             Fault f \<Rightarrow> Faulted f
           | Break rs' \<Rightarrow> Stopped rs'
           | Next rs' \<Rightarrow> main_loop inps rs')"

subsection \<open>imv_parse_args\<close>

text \<open>
  What \<open>getopt\<close> yields one call after the other (the option character and its argument;
  for \<open>?\<close> the offending character), the operands left after the options, what
  \<open>read_from_stdin\<close> returns (the buffer and its length; util.c is not among the sources),
  and what the calls of \<open>fgets\<close> on standard input yield until the end of the input.
\<close>

record parse_env =
  options :: "(char \<times> string) list"
  operands :: "string list"
  stdin_image :: "8 word list option \<times> nat"
  stdin_lines :: "string list"

datatype opt_step = OptFault fault | OptFalse imv | OptTrue imv | OptNext imv

definition complain :: "string \<Rightarrow> imv \<Rightarrow> imv" where
  "complain msg s = s\<lparr>stderr_log := stderr_log s @ [msg]\<rparr>"

text \<open>The argument without its leading \<open>#\<close>, if it has one.\<close>

definition skip_hash :: "string \<Rightarrow> string" where
  "skip_hash optarg = (case optarg of c # r \<Rightarrow> if c = CHR ''#'' then r else optarg | [] \<Rightarrow> optarg)"

text \<open>Lines 228 to 243.\<close>

definition parse_background :: "string \<Rightarrow> imv \<Rightarrow> opt_step" where
  "parse_background optarg s =
     (if optarg = ''checks'' then OptNext (s\<lparr>background := BACKGROUND_CHEQUERED\<rparr>)
      else
        let s1 = s\<lparr>background := BACKGROUND_SOLID\<rparr>;
            argp = skip_hash optarg;
            ep = snd (strtoul 16 argp);
            n = (ucast (fst (strtoul 16 argp)) :: 32 word)
        in if ep \<noteq> [] \<or> length argp - length ep \<noteq> 6 \<or> n > 0xFFFFFF
           then OptFalse (complain (''Invalid hex color: '' @ optarg) s1)
           else OptNext (s1\<lparr>background_color :=
                               (ucast (drop_bit 16 n), ucast (drop_bit 8 n AND 0xFF), ucast (n AND 0xFF))\<rparr>))"

text \<open>
  Lines 244 to 262: the text after the point (\<open>add_fraction\<close>), the duration in
  milliseconds, and the check. With more than three characters after the point the counter
  of the \<open>for\<close> loop starts below zero and is decremented until it overflows.
\<close>

definition add_fraction :: "64 word \<Rightarrow> string \<Rightarrow> fault + 64 word" where
  "add_fraction whole fr =
     (let ep = snd (strtoul 10 fr);
          delay = sint (fst (strtoul 10 fr));
          k = length fr - length ep
      in if k > 3 then Inl SignedOverflow
         else
           let delay' = delay * 10 ^ (3 - k)
           in if delay' < 1000 then Inr (whole + word_of_int delay') else Inr (- 1))"

definition slideshow_duration :: "string \<Rightarrow> fault + 64 word" where
  "slideshow_duration optarg =
     (let argp = snd (strtoul 10 optarg);
          whole = fst (strtoul 10 optarg) * 1000
      in case argp of
           c # fr \<Rightarrow> if c = CHR ''.'' then add_fraction whole fr else Inr whole
         | [] \<Rightarrow> Inr whole)"

definition parse_slideshow :: "string \<Rightarrow> imv \<Rightarrow> opt_step" where
  "parse_slideshow optarg s =
     (case slideshow_duration optarg of
        Inl f \<Rightarrow> OptFault f
      | Inr duration \<Rightarrow>
          (let s1 = s\<lparr>slideshow_image_duration := duration\<rparr>
           in if duration = - 1
              then OptFalse (complain (''Wrong slideshow delay '' @ optarg @ ''. Aborting.'') s1)
              else OptNext s1))"

text \<open>The \<open>switch\<close> of the option loop.\<close>

definition parse_option :: "char \<Rightarrow> string \<Rightarrow> imv \<Rightarrow> opt_step" where
  "parse_option o_char optarg s =
     (if o_char = CHR ''f'' then OptNext (s\<lparr>fullscreen := True\<rparr>)
      else if o_char = CHR ''r'' then OptNext (s\<lparr>recursive_load := True\<rparr>)
      else if o_char = CHR ''a'' then OptNext (s\<lparr>scaling := SCALING_NONE\<rparr>)
      else if o_char = CHR ''s'' then OptNext (s\<lparr>scaling := SCALING_DOWN\<rparr>)
      else if o_char = CHR ''S'' then OptNext (s\<lparr>scaling := SCALING_FULL\<rparr>)
      else if o_char = CHR ''u'' then OptNext (s\<lparr>nearest_neighbour := True\<rparr>)
      else if o_char = CHR ''d'' then OptNext (s\<lparr>overlay_enabled := True\<rparr>)
      else if o_char = CHR ''x'' then OptNext (s\<lparr>cycle_input := False\<rparr>)
      else if o_char = CHR ''l'' then OptNext (s\<lparr>list_at_exit := True\<rparr>)
      else if o_char = CHR ''n'' then OptNext (s\<lparr>starting_path := Some optarg\<rparr>)
      else if o_char = CHR ''e'' then OptNext (s\<lparr>font_name := optarg\<rparr>)
      else if o_char = CHR ''h'' then OptTrue (s\<lparr>stdout_log := stdout_log s @ [''imv''], quit := True\<rparr>)
      else if o_char = CHR ''b'' then parse_background optarg s
      else if o_char = CHR ''t'' then parse_slideshow optarg s
      else if o_char = CHR ''?'' then OptFalse (complain (''Unknown argument '' @ optarg @ ''. Aborting.'') s)
      else OptNext s)"

fun parse_options :: "(char \<times> string) list \<Rightarrow> imv \<Rightarrow> opt_step" where
  "parse_options [] s = OptNext s"
| "parse_options (oa # rest) s =
     (case parse_option (fst oa) (snd oa) s of
        OptNext s' \<Rightarrow> parse_options rest s'
      | r \<Rightarrow> r)"

text \<open>Lines 278 to 295: the operands; the flag is \<open>data_from_stdin\<close>.\<close>

fun add_operands :: "8 word list option \<times> nat \<Rightarrow> bool \<Rightarrow> string list \<Rightarrow> imv \<Rightarrow> opt_step" where
  "add_operands img data_from_stdin [] s = OptNext s"
| "add_operands img data_from_stdin (a # as) s =
     (if a = ''-'' then
        (if paths_from_stdin s
         then OptFalse (complain ''Can't read paths AND image data from stdin. Aborting.'' s)
         else if data_from_stdin
         then OptFalse (complain ''Can't read image data from stdin twice. Aborting.'' s)
         else add_operands img True as
                (imv_add_path a (s\<lparr>stdin_image_data := fst img, stdin_image_data_len := snd img\<rparr>)))
      else add_operands img data_from_stdin as (imv_add_path a s))"

text \<open>Lines 303 to 318: the first line of standard input that is not empty.\<close>

fun first_stdin_path :: "string list \<Rightarrow> imv \<Rightarrow> opt_step" where
  "first_stdin_path [] s = OptFalse (complain '' no input!'' s)"
| "first_stdin_path (buf # bufs) s =
     (if buf = [] then OptFault BufferOverflow
      else
        let line = (if last buf = CHR ''\<newline>'' then butlast buf else buf)
        in if length line > 0 then OptTrue (imv_add_path line s) else first_stdin_path bufs s)"

definition imv_parse_args :: "parse_env \<Rightarrow> imv \<Rightarrow> opt_step" where
  "imv_parse_args env s =
     (case parse_options (options env) s of
        OptNext s1 \<Rightarrow>
          (case (if operands env = [] then OptNext (s1\<lparr>paths_from_stdin := True\<rparr>)
                 else add_operands (stdin_image env) False (operands env) s1) of
             OptNext s2 \<Rightarrow>
               (if paths_from_stdin s2
                then first_stdin_path (stdin_lines env) (complain ''Reading paths from stdin...'' s2)
                else OptTrue s2)
           | r \<Rightarrow> r)
      | r \<Rightarrow> r)"

subsection \<open>imv_run\<close>

text \<open>
  What the libraries answer while the window is set up, and the clock at the start of the
  loop. \<open>errno_einval\<close>: whether \<open>errno\<close> is \<open>EINVAL\<close> after the \<open>strtol\<close> of the starting
  image.
\<close>

record run_env =
  sdl_ok :: bool
  window_ok :: bool
  renderer_ok :: bool
  font_ok :: bool
  errno_einval :: bool
  start_ticks :: "32 word"

definition setup_window :: "run_env \<Rightarrow> imv \<Rightarrow> bool \<times> imv" where
  "setup_window env s =
     (if \<not> sdl_ok env then (False, complain ''SDL Failed to Init'' s)
      else
        let s1 = s\<lparr>sdl_init := True\<rparr> in
        if \<not> window_ok env then (False, complain ''SDL Failed to create window'' s1)
        else
          let s2 = s1\<lparr>window := True\<rparr> in
          if \<not> renderer_ok env then (False, complain ''SDL Failed to create renderer'' s2)
          else
            let s3 = s2\<lparr>renderer := True, ttf_init := True\<rparr> in
            if \<not> font_ok env then (False, complain ''Error loading font'' s3)
            else
              let s4 = s3\<lparr>font := True\<rparr>
              in (True, if fullscreen s4 then view_do ToggleFullscreen s4 else s4))"

text \<open>
  Modelled from the spec: \<open>find(identifier) -> position or not-found\<close> and
  \<open>select_absolute(position)\<close>, which sets the index when the position is in range.
\<close>

definition imv_navigator_find_path :: "imv_navigator \<Rightarrow> string \<Rightarrow> int" where
  "imv_navigator_find_path nav path =
     (if path \<in> set (paths nav) then int (length (takeWhile (\<lambda>p. p \<noteq> path) (paths nav))) else - 1)"

definition imv_navigator_select_str :: "imv_navigator \<Rightarrow> int \<Rightarrow> imv_navigator" where
  "imv_navigator_select_str nav index =
     (if 0 \<le> index \<and> nat index < length (paths nav)
      then nav\<lparr>cur_path := nat index, changed := (changed nav \<or> nat index \<noteq> cur_path nav)\<rparr>
      else nav)"

text \<open>Lines 369 to 384.\<close>

definition select_start :: "run_env \<Rightarrow> imv \<Rightarrow> imv" where
  "select_start env s =
     (case starting_path s of
        None \<Rightarrow> s
      | Some p \<Rightarrow>
          (let found = imv_navigator_find_path (navigator s) p;
               index = (if found = - 1
                        then (if errno_einval env then - 1
                              else sint (word_of_int (long_to_int (fst (strtol 10 p)) - 1) :: 32 word))
                        else found)
           in if index \<ge> 0 then s\<lparr>navigator := imv_navigator_select_str (navigator s) index\<rparr>
              else complain (''Invalid starting image: '' @ p) s))"

datatype exit = Crashed fault | Exit int imv | Unfinished run_state

definition imv_run :: "run_env \<Rightarrow> tick_input list \<Rightarrow> imv \<Rightarrow> exit" where
  "imv_run env inps s =
     (if quit s then Exit 0 s
      else if \<not> fst (setup_window env s) then Exit 1 (snd (setup_window env s))
      else
        case main_loop inps
               \<lparr>st = select_start env (snd (setup_window env s)), iw = 0, ih = 0,
                last_time = start_ticks env\<rparr> of
          Faulted f \<Rightarrow> Crashed f
        | Running rs \<Rightarrow> Unfinished rs
        | Stopped rs \<Rightarrow>
            Exit 0 (if list_at_exit (st rs)
                    then (st rs)\<lparr>stdout_log := stdout_log (st rs) @ paths (navigator (st rs))\<rparr>
                    else st rs))"

text \<open>
  Modelled from the spec: the program's entry point (main.c is not among the sources).
  Rejected arguments end the process with a non-zero exit code before \<open>imv_run\<close> and its
  window; accepted ones run the session, whose result is the exit code.
\<close>

definition imv_main :: "parse_env \<Rightarrow> run_env \<Rightarrow> tick_input list \<Rightarrow> exit" where
  "imv_main penv renv inps =
     (case imv_parse_args penv imv_create of
        OptFault f \<Rightarrow> Crashed f
      | OptFalse s \<Rightarrow> Exit 1 s
      | OptTrue s \<Rightarrow> imv_run renv inps s
      | OptNext s \<Rightarrow> imv_run renv inps s)"

subsection \<open>Observations\<close>

text \<open>Whether the loop is left after an iteration: by a fault, by \<open>break\<close>, or by the quit flag.\<close>

definition session_over :: "step \<Rightarrow> bool" where
  "session_over r = (case r of Fault f \<Rightarrow> True | Break rs \<Rightarrow> True | Next rs \<Rightarrow> quit (st rs))"

section \<open>Properties\<close>

subsection \<open>What each stage of an iteration leaves alone\<close>

lemma take_image_frame:
  "quit (st (take_image img rs)) = quit (st rs)"
  "cycle_input (st (take_image img rs)) = cycle_input (st rs)"
  "paths_from_stdin (st (take_image img rs)) = paths_from_stdin (st rs)"
  "slideshow_image_duration (st (take_image img rs)) = slideshow_image_duration (st rs)"
  "slideshow_time_elapsed (st (take_image img rs)) = slideshow_time_elapsed (st rs)"
  "navigator (st (take_image img rs)) = navigator (st rs)"
  "loader (st (take_image img rs)) = loader (st rs)"
  "playing (view (st (take_image img rs))) = playing (view (st rs))"
  "last_time (take_image img rs) = last_time rs"
  by (simp_all add: take_image_def split: option.split prod.split)

lemma rescale_frame:
  "quit (st (rescale win rs)) = quit (st rs)"
  "cycle_input (st (rescale win rs)) = cycle_input (st rs)"
  "paths_from_stdin (st (rescale win rs)) = paths_from_stdin (st rs)"
  "slideshow_image_duration (st (rescale win rs)) = slideshow_image_duration (st rs)"
  "slideshow_time_elapsed (st (rescale win rs)) = slideshow_time_elapsed (st rs)"
  "navigator (st (rescale win rs)) = navigator (st rs)"
  "loader (st (rescale win rs)) = loader (st rs)"
  "playing (view (st (rescale win rs))) = playing (view (st rs))"
  "last_time (rescale win rs) = last_time rs"
  by (simp_all add: rescale_def view_do_def Let_def)

lemma time_passed_frame:
  "quit (st (time_passed now rs)) = quit (st rs)"
  "cycle_input (st (time_passed now rs)) = cycle_input (st rs)"
  "paths_from_stdin (st (time_passed now rs)) = paths_from_stdin (st rs)"
  "slideshow_image_duration (st (time_passed now rs)) = slideshow_image_duration (st rs)"
  "slideshow_time_elapsed (st (time_passed now rs)) = slideshow_time_elapsed (st rs)"
  "navigator (st (time_passed now rs)) = navigator (st rs)"
  "last_time (time_passed now rs) = last_time rs"
  by (simp_all add: time_passed_def loader_do_def Let_def)

lemma slideshow_frame:
  "quit (st (slideshow now rs)) = quit (st rs)"
  "cycle_input (st (slideshow now rs)) = cycle_input (st rs)"
  "paths_from_stdin (st (slideshow now rs)) = paths_from_stdin (st rs)"
  "slideshow_image_duration (st (slideshow now rs)) = slideshow_image_duration (st rs)"
  "loader (st (slideshow now rs)) = loader (st rs)"
  by (simp_all add: slideshow_def Let_def)

lemma redraw_frame:
  "quit (redraw d s) = quit s"
  "cycle_input (redraw d s) = cycle_input s"
  "paths_from_stdin (redraw d s) = paths_from_stdin s"
  "slideshow_image_duration (redraw d s) = slideshow_image_duration s"
  "slideshow_time_elapsed (redraw d s) = slideshow_time_elapsed s"
  "navigator (redraw d s) = navigator s"
  "loader (redraw d s) = loader s"
  by (simp_all add: redraw_def Let_def)

lemma remove_failed_frame:
  "quit (remove_failed e s) = quit s"
  "cycle_input (remove_failed e s) = cycle_input s"
  "paths_from_stdin (remove_failed e s) = paths_from_stdin s"
  "slideshow_image_duration (remove_failed e s) = slideshow_image_duration s"
  "slideshow_time_elapsed (remove_failed e s) = slideshow_time_elapsed s"
  "loader (remove_failed e s) = loader s"
  by (simp_all add: remove_failed_def Let_def split: option.split)

lemma remove_failed_None: "remove_failed None s = s"
  by (simp add: remove_failed_def)


subsection \<open>A failed load\<close>

lemma count_list_remove1_same:
  "x \<in> set xs \<Longrightarrow> count_list (remove1 x xs) x + 1 = count_list xs x"
  by (induction xs) auto

lemma count_list_remove1_other:
  "y \<noteq> x \<Longrightarrow> count_list (remove1 x xs) y = count_list xs y"
  by (induction xs) auto

lemma navigator_remove_failed:
  "navigator (remove_failed (Some err) s) = imv_navigator_remove (navigator s) err"
  by (simp add: remove_failed_def Let_def split: option.splits)

lemma paths_navigator_remove:
  "paths (imv_navigator_remove nav p) = remove1 p (paths nav)"
  by (simp add: imv_navigator_remove_def Let_def)

lemma cur_path_navigator_remove:
  "paths (imv_navigator_remove nav p) = [] \<or>
   cur_path (imv_navigator_remove nav p) < length (paths (imv_navigator_remove nav p))"
  by (cases "remove1 p (paths nav)") (auto simp add: imv_navigator_remove_def Let_def)

lemma show_and_wait_load_error:
  "show_and_wait (inp\<lparr>load_error := e\<rparr>) rs = show_and_wait inp rs"
  by (simp add: show_and_wait_def)

lemma load_changed_load_error:
  "load_changed (inp\<lparr>load_error := e\<rparr>) rs = load_changed inp rs"
  by (simp add: load_changed_def show_and_wait_load_error Let_def split: option.split)

lemma after_events_error:
  "after_events (inp\<lparr>load_error := Some err\<rparr>) (rs\<lparr>st := s\<rparr>) =
   after_events (inp\<lparr>load_error := None\<rparr>) (rs\<lparr>st := remove_failed (Some err) s\<rparr>)"
  by (simp add: after_events_def remove_failed_None load_changed_load_error Let_def)

text \<open>
  C1. When the loader reports that the identifier \<open>err\<close>, which is in the cursor, failed to
  load, the controller hands it to the cursor's removal once: one occurrence of \<open>err\<close>
  leaves the list, every other identifier keeps its count, and the index stays in range.
  For the identifier \<open>-\<close> the raw bytes are freed, and their length becomes 0 when there
  was a buffer. The quit flag is untouched, and the iteration goes on as one without an
  error would from the cleaned state.
\<close>

theorem failed_load_removed:
  assumes "err \<in> set (paths (navigator s))"
  shows "navigator (remove_failed (Some err) s) = imv_navigator_remove (navigator s) err
     \<and> count_list (paths (navigator (remove_failed (Some err) s))) err + 1
         = count_list (paths (navigator s)) err
     \<and> (\<forall>p. p \<noteq> err \<longrightarrow>
           count_list (paths (navigator (remove_failed (Some err) s))) p
             = count_list (paths (navigator s)) p)
     \<and> (paths (navigator (remove_failed (Some err) s)) = [] \<or>
          cur_path (navigator (remove_failed (Some err) s))
            < length (paths (navigator (remove_failed (Some err) s))))
     \<and> stdin_image_data (remove_failed (Some err) s)
         = (if err = ''-'' then None else stdin_image_data s)
     \<and> stdin_image_data_len (remove_failed (Some err) s)
         = (if err = ''-'' \<and> stdin_image_data s \<noteq> None then 0 else stdin_image_data_len s)
     \<and> quit (remove_failed (Some err) s) = quit s
     \<and> after_events (inp\<lparr>load_error := Some err\<rparr>) (rs\<lparr>st := s\<rparr>)
         = after_events (inp\<lparr>load_error := None\<rparr>) (rs\<lparr>st := remove_failed (Some err) s\<rparr>)"
proof -
  have "count_list (paths (navigator (remove_failed (Some err) s))) err + 1
          = count_list (paths (navigator s)) err"
    using count_list_remove1_same [OF assms]
    by (simp only: navigator_remove_failed paths_navigator_remove)
  moreover have "\<forall>p. p \<noteq> err \<longrightarrow>
           count_list (paths (navigator (remove_failed (Some err) s))) p
             = count_list (paths (navigator s)) p"
    by (simp add: navigator_remove_failed paths_navigator_remove count_list_remove1_other)
  moreover have "paths (navigator (remove_failed (Some err) s)) = [] \<or>
          cur_path (navigator (remove_failed (Some err) s))
            < length (paths (navigator (remove_failed (Some err) s)))"
    unfolding navigator_remove_failed by (rule cur_path_navigator_remove)
  moreover have "stdin_image_data (remove_failed (Some err) s)
         = (if err = ''-'' then None else stdin_image_data s)"
    by (simp add: remove_failed_def Let_def split: option.splits)
  moreover have "stdin_image_data_len (remove_failed (Some err) s)
         = (if err = ''-'' \<and> stdin_image_data s \<noteq> None then 0 else stdin_image_data_len s)"
    by (simp add: remove_failed_def Let_def split: option.splits)
  moreover have "quit (remove_failed (Some err) s) = quit s"
    by (simp add: remove_failed_frame)
  ultimately show ?thesis
    using navigator_remove_failed after_events_error by blast
qed

theorem failed_load_removed_witness:
  "let s0 = imv_create\<lparr>navigator := \<lparr>paths = [''a'', ''-'', ''-''], cur_path = 1, changed = False, wrapped = False\<rparr>,
                         stdin_image_data := Some [1, 2], stdin_image_data_len := 2\<rparr>
   in ''-'' \<in> set (paths (navigator s0))
      \<and> count_list (paths (navigator (remove_failed (Some ''-'') s0))) ''-'' + 1 = 2
      \<and> count_list (paths (navigator (remove_failed (Some ''-'') s0))) ''a'' = 1
      \<and> stdin_image_data (remove_failed (Some ''-'') s0) = None
      \<and> stdin_image_data_len (remove_failed (Some ''-'') s0) = 0
      \<and> \<not> quit (remove_failed (Some ''-'') s0)"
proof -
  let ?s0 = "imv_create\<lparr>navigator := \<lparr>paths = [''a'', ''-'', ''-''], cur_path = 1, changed = False, wrapped = False\<rparr>,
                         stdin_image_data := Some [1, 2], stdin_image_data_len := 2\<rparr>"
  have h: "''-'' \<in> set (paths (navigator ?s0))" by simp
  have a: "count_list (paths (navigator (remove_failed (Some ''-'') ?s0))) ''-'' + 1
             = count_list (paths (navigator ?s0)) ''-''"
    and b: "\<forall>p. p \<noteq> ''-'' \<longrightarrow> count_list (paths (navigator (remove_failed (Some ''-'') ?s0))) p
             = count_list (paths (navigator ?s0)) p"
    and c: "stdin_image_data (remove_failed (Some ''-'') ?s0)
             = (if ''-'' = ''-'' then None else stdin_image_data ?s0)"
    and d: "stdin_image_data_len (remove_failed (Some ''-'') ?s0)
             = (if ''-'' = ''-'' \<and> stdin_image_data ?s0 \<noteq> None then 0 else stdin_image_data_len ?s0)"
    and e: "quit (remove_failed (Some ''-'') ?s0) = quit ?s0"
    using failed_load_removed [OF h] by blast+
  have b': "count_list (paths (navigator (remove_failed (Some ''-'') ?s0))) ''a''
             = count_list (paths (navigator ?s0)) ''a''"
    using b by simp
  show ?thesis
    unfolding Let_def using h a b' c d e by (simp add: imv_create_def)
qed

subsection \<open>The iteration from the image poll on\<close>

lemma check_stdin_frame:
  "check_stdin_for_paths p s = Inr s' \<Longrightarrow>
     view s' = view s \<and> loader s' = loader s \<and> need_rescale s' = need_rescale s"
  by (cases p) (auto simp add: check_stdin_for_paths_def imv_add_path_def Let_def split: if_splits)

lemma check_stdin_fault:
  "check_stdin_for_paths p s = Inl f \<Longrightarrow> p = ReadLine []"
  by (cases p) (auto simp add: check_stdin_for_paths_def Let_def split: if_splits)

lemma feed_or_sleep_cases:
  "case feed_or_sleep p r of
     Next r' \<Rightarrow> view (st r') = view (st r) \<and> loader (st r') = loader (st r)
                  \<and> need_rescale (st r') = need_rescale (st r)
   | Fault f \<Rightarrow> paths_from_stdin (st r) \<and> p = ReadLine []
   | Break r' \<Rightarrow> False"
proof (cases "paths_from_stdin (st r)")
  case False
  then show ?thesis by (simp add: feed_or_sleep_def)
next
  case True
  show ?thesis
  proof (cases "check_stdin_for_paths p (st r)")
    case (Inl f)
    then show ?thesis using True check_stdin_fault [OF Inl] by (simp add: feed_or_sleep_def)
  next
    case (Inr s')
    then show ?thesis using True check_stdin_frame [OF Inr] by (simp add: feed_or_sleep_def)
  qed
qed

lemma stage_views:
  "view (st (take_image img rs)) = view (st rs)"
  "view (st (time_passed now rs)) = view (st rs)"
  "view (st (slideshow now rs)) = view (st rs)"
  "view (redraw d s) = view s"
  by (simp_all add: take_image_def time_passed_def loader_do_def slideshow_def redraw_def Let_def
      split: option.split prod.split)

lemma stage_need_rescale:
  "need_rescale (st (time_passed now rs)) = need_rescale (st rs)"
  "need_rescale (st (slideshow now rs)) = need_rescale (st rs)"
  "need_rescale (redraw d s) = need_rescale s"
  "need_rescale (st (rescale win rs)) = False"
  by (simp_all add: time_passed_def loader_do_def slideshow_def redraw_def rescale_def view_do_def Let_def)

lemma take_image_scaling:
  "scaling (st (take_image img rs)) = scaling (st rs)"
  by (simp add: take_image_def split: option.split prod.split)

lemma time_passed_eq:
  "time_passed now rs =
     (if playing (view (st rs))
      then rs\<lparr>st := loader_do (TimePassed (real (unat (min (now - last_time rs) 100)) / 1000)) (st rs)\<rparr>
      else rs)"
  by (simp add: time_passed_def Let_def min_def not_less)

lemma rescale_eq:
  assumes "need_rescale (st rs)"
  shows "rescale (ww, wh) rs =
           rs\<lparr>st := view_do
                    (case scaling (st rs) of
                       SCALING_NONE \<Rightarrow> ScaleToActual
                     | SCALING_FULL \<Rightarrow> ScaleToWindow
                     | SCALING_DOWN \<Rightarrow> if ww > iw rs \<and> wh > ih rs then ScaleToActual else ScaleToWindow)
                    ((st rs)\<lparr>need_rescale := False\<rparr>)\<rparr>"
  using assms by (cases "scaling (st rs)") (simp_all add: rescale_def Let_def)

lemma show_and_wait_loader:
  "case show_and_wait inp rs of
     Next r \<Rightarrow> loader (st r) = loader (st rs) @
                  (if playing (view (st rs))
                   then [TimePassed (real (unat (min (ticks inp - last_time rs) 100)) / 1000)]
                   else [])
   | Fault f \<Rightarrow> paths_from_stdin (st rs) \<and> stdin inp = ReadLine []
   | Break r \<Rightarrow> False"
proof -
  define r2 where "r2 = rescale (window_size inp) (take_image (image inp) rs)"
  define r4 where "r4 = slideshow (ticks inp) (time_passed (ticks inp) r2)"
  define r6 where "r6 = r4\<lparr>last_time := ticks inp, st := redraw (viewport_redraw inp) (st r4)\<rparr>"
  have s: "show_and_wait inp rs = feed_or_sleep (stdin inp) r6"
    by (simp add: show_and_wait_def Let_def r6_def r4_def r2_def)
  have f2: "playing (view (st r2)) = playing (view (st rs))" "loader (st r2) = loader (st rs)"
    "last_time r2 = last_time rs"
    by (simp_all add: r2_def rescale_frame take_image_frame)
  have l: "loader (st r6) = loader (st rs) @
                  (if playing (view (st rs))
                   then [TimePassed (real (unat (min (ticks inp - last_time rs) 100)) / 1000)]
                   else [])"
    using f2 by (simp add: r6_def r4_def redraw_frame slideshow_frame time_passed_eq loader_do_def)
  have p: "paths_from_stdin (st r6) = paths_from_stdin (st rs)"
    by (simp add: r6_def r4_def r2_def redraw_frame slideshow_frame time_passed_frame
        rescale_frame take_image_frame)
  show ?thesis
    unfolding s using feed_or_sleep_cases [where p = "stdin inp" and r = r6] l p
    by (simp split: step.splits)
qed

lemma show_and_wait_view:
  assumes "need_rescale (st rs)"
  shows "case show_and_wait inp rs of
     Next r \<Rightarrow> \<not> need_rescale (st r)
                \<and> view_calls (view (st r)) = view_calls (view (st rs)) @
                  [case scaling (st rs) of
                     SCALING_NONE \<Rightarrow> ScaleToActual
                   | SCALING_FULL \<Rightarrow> ScaleToWindow
                   | SCALING_DOWN \<Rightarrow>
                       if fst (window_size inp) > iw (take_image (image inp) rs)
                          \<and> snd (window_size inp) > ih (take_image (image inp) rs)
                       then ScaleToActual else ScaleToWindow]
   | Fault f \<Rightarrow> paths_from_stdin (st rs) \<and> stdin inp = ReadLine []
   | Break r \<Rightarrow> False"
proof -
  define r1 where "r1 = take_image (image inp) rs"
  define r2 where "r2 = rescale (window_size inp) r1"
  define r4 where "r4 = slideshow (ticks inp) (time_passed (ticks inp) r2)"
  define r6 where "r6 = r4\<lparr>last_time := ticks inp, st := redraw (viewport_redraw inp) (st r4)\<rparr>"
  have s: "show_and_wait inp rs = feed_or_sleep (stdin inp) r6"
    by (simp add: show_and_wait_def Let_def r6_def r4_def r2_def r1_def)
  have n1: "need_rescale (st r1)"
    using assms by (simp add: r1_def take_image_def split: option.split prod.split)
  have v1: "view (st r1) = view (st rs)" "scaling (st r1) = scaling (st rs)"
    by (simp_all add: r1_def stage_views take_image_scaling)
  have r2e: "r2 = r1\<lparr>st := view_do
                    (case scaling (st r1) of
                       SCALING_NONE \<Rightarrow> ScaleToActual
                     | SCALING_FULL \<Rightarrow> ScaleToWindow
                     | SCALING_DOWN \<Rightarrow> if fst (window_size inp) > iw r1 \<and> snd (window_size inp) > ih r1
                                        then ScaleToActual else ScaleToWindow)
                    ((st r1)\<lparr>need_rescale := False\<rparr>)\<rparr>"
    unfolding r2_def using rescale_eq [OF n1, of "fst (window_size inp)" "snd (window_size inp)"]
    by simp
  have v6: "view (st r6) = view (st r2)" "need_rescale (st r6) = need_rescale (st r2)"
    by (simp_all add: r6_def r4_def stage_views stage_need_rescale)
  have a: "\<not> need_rescale (st r6)"
    unfolding v6 r2_def by (simp add: stage_need_rescale)
  have b: "view_calls (view (st r6)) = view_calls (view (st rs)) @
                  [case scaling (st rs) of
                     SCALING_NONE \<Rightarrow> ScaleToActual
                   | SCALING_FULL \<Rightarrow> ScaleToWindow
                   | SCALING_DOWN \<Rightarrow>
                       if fst (window_size inp) > iw r1 \<and> snd (window_size inp) > ih r1
                       then ScaleToActual else ScaleToWindow]"
    unfolding v6 by (subst r2e) (simp add: view_do_def v1)
  have p: "paths_from_stdin (st r6) = paths_from_stdin (st rs)"
    by (simp add: r6_def r4_def r2_def r1_def redraw_frame slideshow_frame time_passed_frame
        rescale_frame take_image_frame)
  have "case feed_or_sleep (stdin inp) r6 of
     Next r \<Rightarrow> \<not> need_rescale (st r)
                \<and> view_calls (view (st r)) = view_calls (view (st rs)) @
                  [case scaling (st rs) of
                     SCALING_NONE \<Rightarrow> ScaleToActual
                   | SCALING_FULL \<Rightarrow> ScaleToWindow
                   | SCALING_DOWN \<Rightarrow>
                       if fst (window_size inp) > iw r1 \<and> snd (window_size inp) > ih r1
                       then ScaleToActual else ScaleToWindow]
   | Fault f \<Rightarrow> paths_from_stdin (st rs) \<and> stdin inp = ReadLine []
   | Break r \<Rightarrow> False"
    using feed_or_sleep_cases [where p = "stdin inp" and r = r6] a p
    by (auto simp add: b split: step.splits)
  then show ?thesis unfolding s r1_def .
qed

subsection \<open>Rescaling\<close>

text \<open>
  C3. When a rescale is pending, the flag is cleared and the viewport is given one
  transform, chosen by the scaling mode: actual size for \<open>SCALING_NONE\<close>, the window for
  \<open>SCALING_FULL\<close>, and for \<open>SCALING_DOWN\<close> actual size when the window is larger than the
  image in both dimensions and the window otherwise. Nothing else changes in that step;
  and an iteration that reaches the image poll with a rescale pending ends with the flag
  cleared and that one transform added, the image being the one just taken if there is one.
\<close>

theorem rescale_by_mode:
  assumes "need_rescale (st rs)"
  shows "rescale (ww, wh) rs =
           rs\<lparr>st := view_do
                    (case scaling (st rs) of
                       SCALING_NONE \<Rightarrow> ScaleToActual
                     | SCALING_FULL \<Rightarrow> ScaleToWindow
                     | SCALING_DOWN \<Rightarrow> if ww > iw rs \<and> wh > ih rs then ScaleToActual else ScaleToWindow)
                    ((st rs)\<lparr>need_rescale := False\<rparr>)\<rparr>
     \<and> (case show_and_wait inp rs of
           Next r \<Rightarrow> \<not> need_rescale (st r)
                \<and> view_calls (view (st r)) = view_calls (view (st rs)) @
                  [case scaling (st rs) of
                     SCALING_NONE \<Rightarrow> ScaleToActual
                   | SCALING_FULL \<Rightarrow> ScaleToWindow
                   | SCALING_DOWN \<Rightarrow>
                       if fst (window_size inp) > iw (take_image (image inp) rs)
                          \<and> snd (window_size inp) > ih (take_image (image inp) rs)
                       then ScaleToActual else ScaleToWindow]
         | Fault f \<Rightarrow> paths_from_stdin (st rs) \<and> stdin inp = ReadLine []
         | Break r \<Rightarrow> False)"
  using rescale_eq [OF assms] show_and_wait_view [OF assms] by (rule conjI)

theorem rescale_by_mode_witness:
  "let rs0 = \<lparr>st = imv_create\<lparr>scaling := SCALING_DOWN\<rparr>, iw = 100, ih = 100, last_time = 0\<rparr>
   in need_rescale (st rs0)
      \<and> view_calls (view (st (rescale (1280, 720) rs0))) = [ScaleToActual]
      \<and> view_calls (view (st (rescale (1280, 100) rs0))) = [ScaleToWindow]
      \<and> \<not> need_rescale (st (rescale (1280, 720) rs0))"
proof -
  let ?rs = "\<lparr>st = imv_create\<lparr>scaling := SCALING_DOWN\<rparr>, iw = 100, ih = 100, last_time = 0\<rparr>"
  have h: "need_rescale (st ?rs)" by (simp add: imv_create_def)
  show ?thesis
    unfolding Let_def
    using h rescale_by_mode [OF h, THEN conjunct1, of 1280 720]
      rescale_by_mode [OF h, THEN conjunct1, of 1280 100]
    by (simp add: imv_create_def view_do_def)
qed

subsection \<open>Animation time\<close>

text \<open>
  C7. The loader's clock is advanced only when the viewport is playing, and then by the
  time since the previous iteration capped at 100 ms, in seconds: a difference of at most
  100 ms is passed as it is. Nothing else changes in that step; and an iteration that
  reaches the image poll makes that one call when playing and no call of the loader
  otherwise.
\<close>

theorem time_passed_clamped:
  "time_passed now rs =
     (if playing (view (st rs))
      then rs\<lparr>st := loader_do (TimePassed (real (unat (min (now - last_time rs) 100)) / 1000)) (st rs)\<rparr>
      else rs)
   \<and> (case show_and_wait inp rs of
         Next r \<Rightarrow> loader (st r) = loader (st rs) @
                  (if playing (view (st rs))
                   then [TimePassed (real (unat (min (ticks inp - last_time rs) 100)) / 1000)]
                   else [])
       | Fault f \<Rightarrow> paths_from_stdin (st rs) \<and> stdin inp = ReadLine []
       | Break r \<Rightarrow> False)"
  using time_passed_eq show_and_wait_loader by (rule conjI)

subsection \<open>An exhausted cursor\<close>




subsection \<open>Slideshow\<close>





subsection \<open>Command mode\<close>

lemma map_of_default_quit: "map_of default_commands ''quit'' = Some (Handler H_quit)"
  by (simp add: default_commands_def imv_command_register_def imv_command_alias_def Let_def)

lemma split_quit: "split_ws [] ''quit'' = [''quit'']"
  by (simp add: isspace_def)

lemma exec_quit:
  "commands s = default_commands \<Longrightarrow> imv_command_exec ''quit'' s = Inr (s\<lparr>quit := True\<rparr>)"
  unfolding imv_command_exec_def split_quit
  by (simp add: map_of_default_quit command_quit_def)

text \<open>
  C2. While a command line is being typed (the input buffer exists), a key press does what
  command mode says and nothing else: escape discards the buffer; return executes the
  buffered line through the command registry and then discards the buffer; backspace
  erases the last character; every other key, bound outside command mode or not, leaves
  the session as it is. No binding of the inner \<open>switch\<close> is reached, whatever the key,
  its modifiers and its repeat flag.
\<close>

theorem command_mode_keys:
  assumes "input_buffer s = Some buf"
  shows "handle_event s (SDL_KEYDOWN key shift caps rep) =
     (if key = SDLK_ESCAPE then Inr (s\<lparr>input_buffer := None, need_redraw := True\<rparr>)
      else if key = SDLK_RETURN then
        (case imv_command_exec buf s of
           Inl f \<Rightarrow> Inl f
         | Inr s' \<Rightarrow> Inr (s'\<lparr>input_buffer := None, need_redraw := True\<rparr>))
      else if key = SDLK_BACKSPACE then
        Inr (if buf = [] then s else s\<lparr>input_buffer := Some (butlast buf), need_redraw := True\<rparr>)
      else Inr s)"
  using assms by (simp add: handle_event_def handle_key_command_mode_def)

theorem command_mode_keys_witness:
  "let typing = imv_create\<lparr>input_buffer := Some ''quit''\<rparr>
   in input_buffer typing = Some ''quit''
      \<and> handle_event typing (SDL_KEYDOWN SDLK_q False False False) = Inr typing
      \<and> handle_event typing (SDL_KEYDOWN SDLK_x False False False) = Inr typing
      \<and> handle_event typing (SDL_KEYDOWN SDLK_ESCAPE False False False)
          = Inr (typing\<lparr>input_buffer := None, need_redraw := True\<rparr>)
      \<and> handle_event typing (SDL_KEYDOWN SDLK_BACKSPACE False False False)
          = Inr (typing\<lparr>input_buffer := Some ''qui'', need_redraw := True\<rparr>)
      \<and> handle_event typing (SDL_KEYDOWN SDLK_RETURN False False False)
          = Inr (typing\<lparr>quit := True, input_buffer := None, need_redraw := True\<rparr>)"
proof -
  let ?s = "imv_create\<lparr>input_buffer := Some ''quit''\<rparr>"
  have h: "input_buffer ?s = Some ''quit''" by simp
  have c: "commands ?s = default_commands" by (simp add: imv_create_def)
  show ?thesis
    unfolding Let_def
    using h command_mode_keys [OF h, of SDLK_q False False False]
      command_mode_keys [OF h, of SDLK_x False False False]
      command_mode_keys [OF h, of SDLK_ESCAPE False False False]
      command_mode_keys [OF h, of SDLK_BACKSPACE False False False]
      command_mode_keys [OF h, of SDLK_RETURN False False False]
    by (simp add: exec_quit [OF c])
qed

subsection \<open>Text input\<close>

lemma text_input:
  assumes "input_buffer s = Some buf"
  shows "handle_event s (SDL_TEXTINPUT t) =
     (if length buf + min (length t) 1023 \<ge> 1024 then Inl BufferOverflow
      else Inr (s\<lparr>input_buffer := Some (buf @ take 1023 t), need_redraw := True\<rparr>))"
  using assms by (auto simp add: handle_event_def strncat_def command_buffer_len_def)

lemma drain_text:
  assumes "input_buffer s = Some buf" "\<not> quit s" "length buf + n * length t < 1024"
  shows "\<exists>s'. drain_events s (replicate n (SDL_TEXTINPUT t)) = Inr s'
            \<and> input_buffer s' = Some (buf @ concat (replicate n t)) \<and> \<not> quit s'"
  using assms
proof (induction n arbitrary: s buf)
  case 0
  then show ?case by simp
next
  case (Suc n)
  have fit: "\<not> length buf + min (length t) 1023 \<ge> 1024" using Suc.prems(3) by simp
  have tk: "take 1023 t = t" using Suc.prems(3) by simp
  let ?s1 = "s\<lparr>input_buffer := Some (buf @ t), need_redraw := True\<rparr>"
  have step: "handle_event s (SDL_TEXTINPUT t) = Inr ?s1"
    using text_input [OF Suc.prems(1), of t] fit tk by simp
  have "\<exists>s'. drain_events ?s1 (replicate n (SDL_TEXTINPUT t)) = Inr s'
            \<and> input_buffer s' = Some ((buf @ t) @ concat (replicate n t)) \<and> \<not> quit s'"
    by (rule Suc.IH) (use Suc.prems in simp_all)
  then show ?case using step Suc.prems(2) by simp
qed

lemma drain_events_append:
  "drain_events s (xs @ ys) =
     (case drain_events s xs of Inl f \<Rightarrow> Inl f | Inr s' \<Rightarrow> drain_events s' ys)"
proof (induction xs arbitrary: s)
  case Nil
  then show ?case by simp
next
  case (Cons x xs)
  have q: "quit s \<Longrightarrow> drain_events s ys = Inr s" by (cases ys) simp_all
  show ?case using Cons q by (simp split: sum.split)
qed

lemma enter_command_mode:
  "handle_event imv_create (SDL_KEYDOWN SDLK_SEMICOLON True False False)
     = Inr (imv_create\<lparr>input_buffer := Some [], need_redraw := True\<rparr>)"
  by (simp add: handle_event_def handle_key_normal_def imv_create_def)

text \<open>
  C9. Appending typed text can write past the end of the 1024-byte buffer: \<open>strncat\<close> is
  given the size of the buffer less one, not the room that is left. From a new session,
  entering command mode and then typing 33 texts of 31 bytes fills the buffer to 1023
  characters and its terminator; one more character is written at index 1023 and its
  terminator at index 1024.
\<close>

theorem text_input_overflow:
  "drain_events imv_create
     (SDL_KEYDOWN SDLK_SEMICOLON True False False
      # replicate 33 (SDL_TEXTINPUT (replicate 31 (CHR ''a''))) @ [SDL_TEXTINPUT ''a''])
   = Inl BufferOverflow"
proof -
  let ?s0 = "imv_create\<lparr>input_buffer := Some [], need_redraw := True\<rparr>"
  have q0: "\<not> quit imv_create" "\<not> quit ?s0" by (simp_all add: imv_create_def)
  obtain s' where s': "drain_events ?s0 (replicate 33 (SDL_TEXTINPUT (replicate 31 (CHR ''a'')))) = Inr s'"
      "input_buffer s' = Some ([] @ concat (replicate 33 (replicate 31 (CHR ''a''))))" "\<not> quit s'"
    using drain_text [of ?s0 "[]" 33 "replicate 31 (CHR ''a'')"] q0 by auto
  have len: "length ([] @ concat (replicate 33 (replicate 31 (CHR ''a'')))) = 1023"
    by (simp add: length_concat sum_list_replicate)
  have last: "drain_events s' [SDL_TEXTINPUT ''a''] = Inl BufferOverflow"
    using s'(3) text_input [OF s'(2), of "''a''"] len by simp
  show ?thesis
    using q0 enter_command_mode s'(1) last by (simp add: drain_events_append)
qed

subsection \<open>The select_rel and remove commands\<close>

lemma command_select_rel_resets:
  "length args = 2 \<Longrightarrow>
   \<exists>s'. command_select_rel args s = Inr s' \<and> slideshow_time_elapsed s' = 0"
  by (simp add: command_select_rel_def Let_def)

lemma command_remove_resets:
  "imv_navigator_selection (navigator s) = Some p \<Longrightarrow>
   \<exists>s'. command_remove args s = Inr s' \<and> slideshow_time_elapsed s' = 0
        \<and> navigator s' = imv_navigator_remove (navigator s) p"
  by (simp add: command_remove_def)

lemma map_of_default_remove: "map_of default_commands ''remove'' = Some (Handler H_remove)"
  by (simp add: default_commands_def imv_command_register_def imv_command_alias_def Let_def)

lemma split_remove: "split_ws [] ''remove'' = [''remove'']"
  by (simp add: isspace_def)

lemma exec_remove:
  "commands s = default_commands \<Longrightarrow> imv_command_exec ''remove'' s = command_remove [''remove''] s"
  unfolding imv_command_exec_def split_remove
  by (simp add: map_of_default_remove)

lemma key_x:
  "commands s = default_commands \<Longrightarrow> input_buffer s = None \<Longrightarrow>
   handle_event s (SDL_KEYDOWN SDLK_x False False False) = command_remove [''remove''] s"
  by (simp add: handle_event_def handle_key_normal_def exec_remove)

text \<open>
  C10. The remove command does not reset the slideshow time when the cursor has no
  selection: it passes the null selection to \<open>strdup\<close>. In a session fed by standard
  input whose only image is removed with the x key, the first iteration ends waiting for
  more paths; the x key pressed again in the second iteration is a fault. (With a
  selection, and for \<open>select_rel\<close> with one argument, the time is reset: the two lemmas
  above.)
\<close>

theorem remove_without_selection:
  "let press_x = \<lparr>events = [SDL_KEYDOWN SDLK_x False False False], load_error = None, image = None,
                  window_size = (1280, 720), ticks = 0, viewport_redraw = False, stdin = PollQuiet\<rparr>;
       fed = imv_create\<lparr>paths_from_stdin := True,
                        navigator := imv_navigator_add imv_navigator_create ''a.png'' False\<rparr>
   in main_loop [press_x, press_x] \<lparr>st = fed, iw = 0, ih = 0, last_time = 0\<rparr> = Faulted NullPointer"
proof -
  let ?x = "\<lparr>events = [SDL_KEYDOWN SDLK_x False False False], load_error = None, image = None,
                  window_size = (1280, 720), ticks = 0, viewport_redraw = False, stdin = PollQuiet\<rparr>"
  define fed where "fed = imv_create\<lparr>paths_from_stdin := True,
                        navigator := imv_navigator_add imv_navigator_create ''a.png'' False\<rparr>"
  define s1 where "s1 = fed\<lparr>navigator := \<lparr>paths = [], cur_path = 0, changed = True, wrapped = False\<rparr>,
                          slideshow_time_elapsed := 0\<rparr>"
  define s2 where "s2 = s1\<lparr>navigator := \<lparr>paths = [], cur_path = 0, changed = False, wrapped = False\<rparr>\<rparr>"
  have c: "commands fed = default_commands" "input_buffer fed = None" "\<not> quit fed"
          "commands s2 = default_commands" "input_buffer s2 = None" "\<not> quit s2"
          "\<not> quit s1" "cycle_input s1" "paths_from_stdin s1"
          "navigator s1 = \<lparr>paths = [], cur_path = 0, changed = True, wrapped = False\<rparr>"
          "navigator s2 = \<lparr>paths = [], cur_path = 0, changed = False, wrapped = False\<rparr>"
    by (simp_all add: fed_def s1_def s2_def imv_create_def)
  have r1: "command_remove [''remove''] fed = Inr s1"
    by (simp add: command_remove_def imv_navigator_selection_def imv_navigator_remove_def
        imv_navigator_add_def imv_navigator_create_def fed_def s1_def)
  have r2: "command_remove [''remove''] s2 = Inl NullPointer"
    by (simp add: command_remove_def imv_navigator_selection_def c(11))
  have d1: "drain_events fed (events ?x) = Inr s1"
    using c(3) by (simp add: key_x [OF c(1,2)] r1)
  have d2: "drain_events s2 (events ?x) = Inl NullPointer"
    using c(6) by (simp add: key_x [OF c(4,5)] r2)
  have a1: "after_events ?x \<lparr>st = s1, iw = 0, ih = 0, last_time = 0\<rparr>
              = Next \<lparr>st = s2, iw = 0, ih = 0, last_time = 0\<rparr>"
    using c(8,9)
    by (simp add: after_events_def remove_failed_None check_wrapped_def load_changed_def
        imv_navigator_poll_changed_def imv_navigator_selection_def Let_def c(10) s2_def)
  have t1: "tick ?x \<lparr>st = fed, iw = 0, ih = 0, last_time = 0\<rparr>
              = Next \<lparr>st = s2, iw = 0, ih = 0, last_time = 0\<rparr>"
    unfolding tick_def using d1 c(7) a1 by simp
  have t2: "tick ?x \<lparr>st = s2, iw = 0, ih = 0, last_time = 0\<rparr> = Fault NullPointer"
    unfolding tick_def using d2 by simp
  have "main_loop [?x, ?x] \<lparr>st = fed, iw = 0, ih = 0, last_time = 0\<rparr> = Faulted NullPointer"
    using t1 t2 c(3,6) by simp
  then show ?thesis
    unfolding Let_def fed_def .
qed

subsection \<open>Wraparound\<close>

lemma check_stdin_over:
  "\<not> quit s \<Longrightarrow>
   (case check_stdin_for_paths p s of Inl f \<Rightarrow> True | Inr s' \<Rightarrow> quit s')
     = (p = PollFailed \<or> p = ReadLine [])"
  by (cases p) (simp_all add: check_stdin_for_paths_def imv_add_path_def Let_def)

lemma show_and_wait_not_break: "show_and_wait inp rs \<noteq> Break r"
  by (simp add: show_and_wait_def feed_or_sleep_def Let_def split: sum.split)

lemma session_over_show_and_wait:
  assumes "\<not> quit (st rs)"
  shows "session_over (show_and_wait inp rs)
           = (paths_from_stdin (st rs) \<and> (stdin inp = PollFailed \<or> stdin inp = ReadLine []))"
proof -
  define r4 where "r4 = slideshow (ticks inp) (time_passed (ticks inp) (rescale (window_size inp) (take_image (image inp) rs)))"
  define s6 where "s6 = redraw (viewport_redraw inp) (st r4)"
  have q: "\<not> quit s6" and pf: "paths_from_stdin s6 = paths_from_stdin (st rs)"
    using assms by (simp_all add: s6_def r4_def redraw_frame slideshow_frame time_passed_frame
        rescale_frame take_image_frame)
  have "show_and_wait inp rs = feed_or_sleep (stdin inp) (r4\<lparr>last_time := ticks inp, st := s6\<rparr>)"
    by (simp add: show_and_wait_def Let_def r4_def s6_def)
  then show ?thesis
    using q pf check_stdin_over [OF q, of "stdin inp"]
    by (simp add: feed_or_sleep_def session_over_def split: sum.splits)
qed

lemma session_over_simps:
  "session_over (Next r) = quit (st r)" "session_over (Break r)" "session_over (Fault f)"
  by (simp_all add: session_over_def)

lemma start_loading_frame:
  "quit (start_loading p s) = quit s"
  "paths_from_stdin (start_loading p s) = paths_from_stdin s"
  by (simp_all add: start_loading_def loader_do_def Let_def)

lemma load_changed_not_break: "load_changed inp rs \<noteq> Break r"
  by (simp add: load_changed_def Let_def show_and_wait_not_break split: option.split)

lemma session_over_load_changed:
  assumes "\<not> quit (st rs)"
  shows "session_over (load_changed inp rs)
           = (if changed (navigator (st rs)) \<and> imv_navigator_selection (navigator (st rs)) = None
              then \<not> paths_from_stdin (st rs)
              else paths_from_stdin (st rs) \<and> (stdin inp = PollFailed \<or> stdin inp = ReadLine []))"
proof -
  have sel: "imv_navigator_selection ((navigator (st rs))\<lparr>changed := False\<rparr>)
               = imv_navigator_selection (navigator (st rs))"
    by (simp add: imv_navigator_selection_def)
  show ?thesis
    using assms
    by (simp add: load_changed_def imv_navigator_poll_changed_def Let_def sel
        session_over_show_and_wait start_loading_frame session_over_simps
        split: option.split)
qed

lemma check_wrapped_cycling: "cycle_input s \<Longrightarrow> check_wrapped s = (False, s)"
  by (simp add: check_wrapped_def)

lemma check_wrapped_latched:
  "\<not> cycle_input s \<Longrightarrow> wrapped (navigator s) \<Longrightarrow>
   check_wrapped s = (True, s\<lparr>navigator := (navigator s)\<lparr>wrapped := False\<rparr>\<rparr>)"
  by (simp add: check_wrapped_def imv_navigator_wrapped_def)

text \<open>
  C8. In an iteration that the events do not end: with cycling off and the wraparound latch
  set after a failed load was removed, the loop is left by \<open>break\<close> with no request made to
  the loader and the changed latch still unread. With cycling on the loop is never left by
  \<open>break\<close>, and whether the session is over after the iteration is decided without the
  wraparound latch: by an exhausted cursor without a feed, or by the feed.
\<close>

theorem wrapped_without_cycling:
  assumes "\<not> quit (st rs)"
    and "drain_events (st rs) (events inp) = Inr s" and "\<not> quit s"
    and "s' = remove_failed (load_error inp) s"
  shows "if cycle_input s
         then (\<forall>r. tick inp rs \<noteq> Break r)
              \<and> session_over (tick inp rs)
                  = (if changed (navigator s') \<and> imv_navigator_selection (navigator s') = None
                     then \<not> paths_from_stdin s
                     else paths_from_stdin s \<and> (stdin inp = PollFailed \<or> stdin inp = ReadLine []))
         else (wrapped (navigator s') \<longrightarrow>
                (\<exists>r. tick inp rs = Break r \<and> loader (st r) = loader s
                    \<and> changed (navigator (st r)) = changed (navigator s')
                    \<and> main_loop (inp # inps) rs = Stopped r))"
proof (cases "cycle_input s")
  case True
  then have ci: "cycle_input s'" using assms(4) by (simp add: remove_failed_frame)
  have q: "\<not> quit s'" and pf: "paths_from_stdin s' = paths_from_stdin s"
    using assms(3,4) by (simp_all add: remove_failed_frame)
  have cw: "check_wrapped (remove_failed (load_error inp) s) = (False, remove_failed (load_error inp) s)"
    using ci assms(4) by (simp add: check_wrapped_cycling)
  have t: "tick inp rs = load_changed inp (rs\<lparr>st := s'\<rparr>)"
    unfolding assms(4) using assms(2,3) by (simp add: tick_def after_events_def cw Let_def)
  show ?thesis
    using True q pf by (simp add: t load_changed_not_break session_over_load_changed)
next
  case False
  then have ci: "\<not> cycle_input s'" using assms(4) by (simp add: remove_failed_frame)
  have l: "loader s' = loader s" using assms(4) by (simp add: remove_failed_frame)
  {
    assume w: "wrapped (navigator s')"
    let ?r = "rs\<lparr>st := s'\<lparr>navigator := (navigator s')\<lparr>wrapped := False\<rparr>\<rparr>\<rparr>"
    have cw: "check_wrapped (remove_failed (load_error inp) s)
                = (True, s'\<lparr>navigator := (navigator s')\<lparr>wrapped := False\<rparr>\<rparr>)"
      using check_wrapped_latched [OF ci w] assms(4) by simp
    have t: "tick inp rs = Break ?r"
      using assms(2,3) by (simp add: tick_def after_events_def cw Let_def)
    then have "\<exists>r. tick inp rs = Break r \<and> loader (st r) = loader s
                    \<and> changed (navigator (st r)) = changed (navigator s')
                    \<and> main_loop (inp # inps) rs = Stopped r"
      using assms(1) l by (intro exI [of _ ?r]) simp
  }
  then show ?thesis using False by simp
qed

theorem wrapped_without_cycling_witness:
  "let inp0 = \<lparr>events = [], load_error = None, image = None, window_size = (1280, 720),
               ticks = 10, viewport_redraw = False, stdin = PollQuiet\<rparr>;
       nav0 = \<lparr>paths = [''a'', ''b''], cur_path = 0, changed = True, wrapped = True\<rparr>;
       cycling = \<lparr>st = imv_create\<lparr>navigator := nav0\<rparr>, iw = 0, ih = 0, last_time = 0\<rparr>;
       once = \<lparr>st = imv_create\<lparr>navigator := nav0, cycle_input := False\<rparr>, iw = 0, ih = 0, last_time = 0\<rparr>
   in (\<forall>r. tick inp0 cycling \<noteq> Break r) \<and> \<not> session_over (tick inp0 cycling)
      \<and> (\<exists>r. tick inp0 once = Break r \<and> loader (st r) = [] \<and> changed (navigator (st r))
             \<and> main_loop [inp0] once = Stopped r)"
proof -
  let ?inp = "\<lparr>events = [], load_error = None, image = None, window_size = (1280, 720),
               ticks = 10, viewport_redraw = False, stdin = PollQuiet\<rparr>"
  let ?nav = "\<lparr>paths = [''a'', ''b''], cur_path = 0, changed = True, wrapped = True\<rparr>"
  define cyc where "cyc = imv_create\<lparr>navigator := ?nav\<rparr>"
  define once where "once = imv_create\<lparr>navigator := ?nav, cycle_input := False\<rparr>"
  have fc: "\<not> quit cyc" "cycle_input cyc" "\<not> paths_from_stdin cyc" "navigator cyc = ?nav"
    and fo: "\<not> quit once" "\<not> cycle_input once" "navigator once = ?nav" "loader once = []"
    by (simp_all add: cyc_def once_def imv_create_def)
  have a: "if cycle_input cyc
         then (\<forall>r. tick ?inp \<lparr>st = cyc, iw = 0, ih = 0, last_time = 0\<rparr> \<noteq> Break r)
              \<and> session_over (tick ?inp \<lparr>st = cyc, iw = 0, ih = 0, last_time = 0\<rparr>)
                  = (if changed (navigator cyc) \<and> imv_navigator_selection (navigator cyc) = None
                     then \<not> paths_from_stdin cyc
                     else paths_from_stdin cyc \<and> (stdin ?inp = PollFailed \<or> stdin ?inp = ReadLine []))
         else (wrapped (navigator cyc) \<longrightarrow>
                (\<exists>r. tick ?inp \<lparr>st = cyc, iw = 0, ih = 0, last_time = 0\<rparr> = Break r \<and> loader (st r) = loader cyc
                    \<and> changed (navigator (st r)) = changed (navigator cyc)
                    \<and> main_loop (?inp # []) \<lparr>st = cyc, iw = 0, ih = 0, last_time = 0\<rparr> = Stopped r))"
    by (rule wrapped_without_cycling) (simp_all add: fc remove_failed_None)
  have b: "if cycle_input once
         then (\<forall>r. tick ?inp \<lparr>st = once, iw = 0, ih = 0, last_time = 0\<rparr> \<noteq> Break r)
              \<and> session_over (tick ?inp \<lparr>st = once, iw = 0, ih = 0, last_time = 0\<rparr>)
                  = (if changed (navigator once) \<and> imv_navigator_selection (navigator once) = None
                     then \<not> paths_from_stdin once
                     else paths_from_stdin once \<and> (stdin ?inp = PollFailed \<or> stdin ?inp = ReadLine []))
         else (wrapped (navigator once) \<longrightarrow>
                (\<exists>r. tick ?inp \<lparr>st = once, iw = 0, ih = 0, last_time = 0\<rparr> = Break r \<and> loader (st r) = loader once
                    \<and> changed (navigator (st r)) = changed (navigator once)
                    \<and> main_loop (?inp # []) \<lparr>st = once, iw = 0, ih = 0, last_time = 0\<rparr> = Stopped r))"
    by (rule wrapped_without_cycling) (simp_all add: fo remove_failed_None)
  have "(\<forall>r. tick ?inp \<lparr>st = cyc, iw = 0, ih = 0, last_time = 0\<rparr> \<noteq> Break r)
      \<and> \<not> session_over (tick ?inp \<lparr>st = cyc, iw = 0, ih = 0, last_time = 0\<rparr>)"
    using a fc by (simp add: imv_navigator_selection_def)
  moreover have "\<exists>r. tick ?inp \<lparr>st = once, iw = 0, ih = 0, last_time = 0\<rparr> = Break r \<and> loader (st r) = []
             \<and> changed (navigator (st r))
             \<and> main_loop [?inp] \<lparr>st = once, iw = 0, ih = 0, last_time = 0\<rparr> = Stopped r"
    using b fo by simp
  ultimately show ?thesis
    unfolding Let_def cyc_def once_def by blast
qed

subsection \<open>Argument values\<close>

lemma is_digit_16_plain:
  "is_digit 16 c \<Longrightarrow> \<not> isspace c \<and> c \<noteq> CHR ''-'' \<and> c \<noteq> CHR ''+'' \<and> c \<noteq> CHR ''x'' \<and> c \<noteq> CHR ''X''"
  by (auto simp add: is_digit_def digit_of_def isspace_def Let_def split: if_splits)

lemma is_digit_value:
  "is_digit b c \<Longrightarrow> \<exists>d. digit_of c = Some d \<and> d < b"
  by (auto simp add: is_digit_def split: option.splits)

lemma background_length:
  assumes "optarg \<noteq> ''checks''" "length (skip_hash optarg) \<noteq> 6"
  shows "\<exists>s'. parse_background optarg s = OptFalse s'"
  using assms by (auto simp add: parse_background_def Let_def)

lemma skip_sign_set:
  "set s \<subseteq> set (skip_sign s) \<union> {CHR ''-'', CHR ''+''}"
  by (auto simp add: skip_sign_def split: list.splits if_splits)

lemma skip_0x_set:
  "set s \<subseteq> set (skip_0x b s) \<union> {CHR ''0'', CHR ''x'', CHR ''X''}"
  by (auto simp add: skip_0x_def split: list.splits if_splits)

lemma scan_rest_empty:
  assumes "scan_integer b s = Some (neg, m, [])"
  shows "\<forall>c \<in> set s. is_digit b c \<or> isspace c \<or> c = CHR ''-'' \<or> c = CHR ''+''
            \<or> c = CHR ''0'' \<or> c = CHR ''x'' \<or> c = CHR ''X''"
proof -
  define s1 where "s1 = dropWhile isspace s"
  define s3 where "s3 = skip_0x b (skip_sign s1)"
  have r: "dropWhile (is_digit b) s3 = []"
    using assms by (simp add: scan_integer_def Let_def s1_def s3_def split: if_splits)
  have a3: "\<forall>c \<in> set s3. is_digit b c" using r by (simp add: dropWhile_eq_Nil_conv)
  have a1: "set s1 \<subseteq> set s3 \<union> {CHR ''-'', CHR ''+'', CHR ''0'', CHR ''x'', CHR ''X''}"
    using skip_sign_set [of s1] skip_0x_set [of "skip_sign s1" b] unfolding s3_def by blast
  have "set s = set (takeWhile isspace s) \<union> set s1"
    unfolding s1_def by (metis set_append takeWhile_dropWhile_id)
  moreover have "\<forall>c \<in> set (takeWhile isspace s). isspace c"
    by (auto dest: set_takeWhileD)
  ultimately show ?thesis using a1 a3 by auto
qed

lemma background_foreign:
  assumes "optarg \<noteq> ''checks''"
    and "c \<in> set (skip_hash optarg)"
    and "\<not> is_digit 16 c" "\<not> isspace c" "c \<noteq> CHR ''-''" "c \<noteq> CHR ''+''" "c \<noteq> CHR ''x''" "c \<noteq> CHR ''X''"
  shows "\<exists>s'. parse_background optarg s = OptFalse s'"
proof -
  have z: "c \<noteq> CHR ''0''" using assms(3) by (auto simp add: is_digit_def digit_of_def)
  have "snd (strtoul 16 (skip_hash optarg)) \<noteq> []"
  proof (cases "scan_integer 16 (skip_hash optarg)")
    case None
    then show ?thesis using assms(2) by (auto simp add: strtoul_def)
  next
    case (Some a)
    obtain neg m rest where a: "a = (neg, m, rest)" by (cases a)
    have "rest \<noteq> []"
    proof
      assume "rest = []"
      then have "scan_integer 16 (skip_hash optarg) = Some (neg, m, [])" using Some a by simp
      from scan_rest_empty [OF this] assms(2-8) z show False by blast
    qed
    then show ?thesis using Some a by (simp add: strtoul_def)
  qed
  then show ?thesis using assms(1) by (simp add: parse_background_def Let_def)
qed

lemma byte_of_colour:
  fixes v :: int
  shows "(ucast (drop_bit 16 (ucast (word_of_int v :: 64 word) :: 32 word)) :: 8 word) = word_of_int (v div 65536)"
    and "(ucast (drop_bit 8 (ucast (word_of_int v :: 64 word) :: 32 word) AND 0xFF) :: 8 word) = word_of_int (v div 256 mod 256)"
    and "(ucast ((ucast (word_of_int v :: 64 word) :: 32 word) AND 0xFF) :: 8 word) = word_of_int (v mod 256)"
proof -
  have a: "v div 65536 = drop_bit 16 v" and b: "v div 256 mod 256 = take_bit 8 (drop_bit 8 v)"
    and c: "v mod 256 = take_bit 8 v"
    by (simp_all add: drop_bit_eq_div take_bit_eq_mod)
  have m: "(0xFF :: 32 word) = mask 8" by (simp add: mask_eq_exp_minus_1)
  show "(ucast (drop_bit 16 (ucast (word_of_int v :: 64 word) :: 32 word)) :: 8 word) = word_of_int (v div 65536)"
    unfolding a by (rule bit_word_eqI) (auto simp add: bit_simps)
  show "(ucast (drop_bit 8 (ucast (word_of_int v :: 64 word) :: 32 word) AND 0xFF) :: 8 word) = word_of_int (v div 256 mod 256)"
    unfolding b m by (rule bit_word_eqI) (auto simp add: bit_simps)
  show "(ucast ((ucast (word_of_int v :: 64 word) :: 32 word) AND 0xFF) :: 8 word) = word_of_int (v mod 256)"
    unfolding c m by (rule bit_word_eqI) (auto simp add: bit_simps)
qed

lemma colour_in_range:
  fixes v :: int
  assumes "0 \<le> v" "v < 2 ^ 24"
  shows "\<not> (ucast (word_of_int v :: 64 word) :: 32 word) > 0xFFFFFF"
proof -
  have "(ucast (word_of_int v :: 64 word) :: 32 word) = word_of_int v"
    by (rule bit_word_eqI) (auto simp add: bit_simps)
  moreover have "uint (word_of_int v :: 32 word) = v"
    using assms by (simp add: uint_word_of_int take_bit_int_eq_self)
  ultimately show ?thesis using assms by (simp add: word_less_def)
qed

lemma six_hex_digits:
  assumes "is_digit 16 c1" "is_digit 16 c2" "is_digit 16 c3" "is_digit 16 c4" "is_digit 16 c5" "is_digit 16 c6"
  shows "strtoul 16 [c1, c2, c3, c4, c5, c6] = (word_of_int (digits_value 16 [c1, c2, c3, c4, c5, c6]), [])"
proof -
  have p: "\<not> isspace c1" "c1 \<noteq> CHR ''-''" "c1 \<noteq> CHR ''+''" "c2 \<noteq> CHR ''x''" "c2 \<noteq> CHR ''X''"
    using is_digit_16_plain [OF assms(1)] is_digit_16_plain [OF assms(2)] by simp_all
  have sc: "scan_integer 16 [c1, c2, c3, c4, c5, c6]
              = Some (False, digits_value 16 [c1, c2, c3, c4, c5, c6], [])"
    using assms p by (simp add: scan_integer_def skip_sign_def skip_0x_def negative_def Let_def)
  obtain d1 d2 d3 d4 d5 d6 where d:
    "digit_of c1 = Some d1" "d1 < 16" "digit_of c2 = Some d2" "d2 < 16"
    "digit_of c3 = Some d3" "d3 < 16" "digit_of c4 = Some d4" "d4 < 16"
    "digit_of c5 = Some d5" "d5 < 16" "digit_of c6 = Some d6" "d6 < 16"
    using assms by (auto dest!: is_digit_value)
  have "digits_value 16 [c1, c2, c3, c4, c5, c6] < 2 ^ 64"
    using d by (simp add: digits_value_def)
  then show ?thesis by (simp add: strtoul_def sc)
qed

lemma six_hex_value:
  assumes "digit_of c1 = Some d1" "d1 < 16" "digit_of c2 = Some d2" "d2 < 16"
    "digit_of c3 = Some d3" "d3 < 16" "digit_of c4 = Some d4" "d4 < 16"
    "digit_of c5 = Some d5" "d5 < 16" "digit_of c6 = Some d6" "d6 < 16"
  defines "v \<equiv> digits_value 16 [c1, c2, c3, c4, c5, c6]"
  shows "0 \<le> v" "v < 2 ^ 24"
    "v div 65536 = int (16 * d1 + d2)"
    "v div 256 mod 256 = int (16 * d3 + d4)"
    "v mod 256 = int (16 * d5 + d6)"
proof -
  define hi where "hi = 16 * d1 + d2"
  define mid where "mid = 16 * d3 + d4"
  define lo where "lo = 16 * d5 + d6"
  have b: "hi < 256" "mid < 256" "lo < 256"
    using assms(2,4,6,8,10,12) by (simp_all add: hi_def mid_def lo_def)
  have v: "v = int ((hi * 256 + mid) * 256 + lo)"
    using assms(1,3,5,7,9,11) by (simp add: v_def digits_value_def hi_def mid_def lo_def)
  have d16: "((hi * 256 + mid) * 256 + lo) div 65536 = hi"
    by (rule div_nat_eqI) (use b in simp_all)
  have d8: "((hi * 256 + mid) * 256 + lo) div 256 = hi * 256 + mid"
    by (rule div_nat_eqI) (use b in simp_all)
  have "((hi * 256 + mid) * 256 + lo) mod 256 = lo mod 256"
    by (rule mod_mult_self3)
  then have m8: "((hi * 256 + mid) * 256 + lo) mod 256 = lo"
    using b by simp
  have "(hi * 256 + mid) mod 256 = mid mod 256"
    by (rule mod_mult_self3)
  then have mm: "(hi * 256 + mid) mod 256 = mid"
    using b by simp
  show "0 \<le> v" by (simp add: v)
  have "(hi * 256 + mid) * 256 + lo < 2 ^ 24" using b by simp
  then show "v < 2 ^ 24" unfolding v by (metis of_nat_less_iff of_nat_numeral of_nat_power)
  show "v div 65536 = int (16 * d1 + d2)"
    unfolding v using d16 by (metis hi_def of_nat_numeral zdiv_int)
  show "v div 256 mod 256 = int (16 * d3 + d4)"
    unfolding v using d8 mm by (metis mid_def of_nat_numeral zdiv_int zmod_int)
  show "v mod 256 = int (16 * d5 + d6)"
    unfolding v using m8 by (metis lo_def of_nat_numeral zmod_int)
qed

lemma background_six_digits:
  assumes "skip_hash optarg = [c1, c2, c3, c4, c5, c6]"
    and "digit_of c1 = Some d1" "d1 < 16" "digit_of c2 = Some d2" "d2 < 16"
    "digit_of c3 = Some d3" "d3 < 16" "digit_of c4 = Some d4" "d4 < 16"
    "digit_of c5 = Some d5" "d5 < 16" "digit_of c6 = Some d6" "d6 < 16"
  shows "parse_background optarg s =
           OptNext (s\<lparr>background := BACKGROUND_SOLID,
                      background_color := (of_nat (16 * d1 + d2), of_nat (16 * d3 + d4), of_nat (16 * d5 + d6))\<rparr>)"
proof -
  have dg: "is_digit 16 c1" "is_digit 16 c2" "is_digit 16 c3" "is_digit 16 c4" "is_digit 16 c5" "is_digit 16 c6"
    using assms(2-13) by (simp_all add: is_digit_def)
  have nc: "optarg \<noteq> ''checks''"
  proof
    assume "optarg = ''checks''"
    then have "c2 = CHR ''h''" using assms(1) by (simp add: skip_hash_def)
    then show False using dg(2) by (simp add: is_digit_def digit_of_def)
  qed
  define v where "v = digits_value 16 [c1, c2, c3, c4, c5, c6]"
  have st: "strtoul 16 [c1, c2, c3, c4, c5, c6] = (word_of_int v, [])"
    unfolding v_def by (rule six_hex_digits [OF dg])
  have vv: "0 \<le> v" "v < 2 ^ 24" "v div 65536 = int (16 * d1 + d2)"
    "v div 256 mod 256 = int (16 * d3 + d4)" "v mod 256 = int (16 * d5 + d6)"
    unfolding v_def by (rule six_hex_value [OF assms(2-13)])+
  have rng: "\<not> (ucast (word_of_int v :: 64 word) :: 32 word) > 0xFFFFFF"
    by (rule colour_in_range [OF vv(1,2)])
  show ?thesis
    using nc rng
    by (simp add: parse_background_def Let_def st assms(1) byte_of_colour vv(3,4,5))
qed

lemma even_thousand: "(x * 1000 :: 64 word) \<noteq> - 1"
proof
  assume "x * 1000 = (- 1 :: 64 word)"
  then have "even (- 1 :: 64 word)" by (metis even_mult_iff even_numeral)
  then show False by simp
qed

lemma slideshow_duration_whole:
  assumes "case snd (strtoul 10 optarg) of c # r \<Rightarrow> c \<noteq> CHR ''.'' | [] \<Rightarrow> True"
  shows "slideshow_duration optarg = Inr (fst (strtoul 10 optarg) * 1000)"
  using assms by (cases "snd (strtoul 10 optarg)") (simp_all add: slideshow_duration_def Let_def)

lemma slideshow_whole:
  assumes "case snd (strtoul 10 optarg) of c # r \<Rightarrow> c \<noteq> CHR ''.'' | [] \<Rightarrow> True"
  shows "parse_slideshow optarg s =
           OptNext (s\<lparr>slideshow_image_duration := fst (strtoul 10 optarg) * 1000\<rparr>)"
  by (simp add: parse_slideshow_def slideshow_duration_whole [OF assms] even_thousand Let_def)

lemma parse_background_window:
  "case parse_background a s of
     OptFalse s' \<Rightarrow> window s' = window s | OptNext s' \<Rightarrow> window s' = window s | _ \<Rightarrow> True"
  by (simp add: parse_background_def complain_def Let_def)

lemma parse_slideshow_window:
  "case parse_slideshow a s of
     OptFalse s' \<Rightarrow> window s' = window s | OptNext s' \<Rightarrow> window s' = window s | _ \<Rightarrow> True"
  by (simp add: parse_slideshow_def complain_def Let_def split: sum.split)

lemma parse_option_window:
  "case parse_option c a s of
     OptFalse s' \<Rightarrow> window s' = window s | OptNext s' \<Rightarrow> window s' = window s | _ \<Rightarrow> True"
  using parse_background_window [where a = a and s = s] parse_slideshow_window [where a = a and s = s]
  by (simp add: parse_option_def complain_def)

lemma parse_options_window:
  "case parse_options os s of
     OptFalse s' \<Rightarrow> window s' = window s | OptNext s' \<Rightarrow> window s' = window s | _ \<Rightarrow> True"
proof (induction os arbitrary: s)
  case Nil
  then show ?case by simp
next
  case (Cons oa os)
  show ?case
  proof (cases "parse_option (fst oa) (snd oa) s")
    case (OptNext s1)
    then have "window s1 = window s" using parse_option_window [where c = "fst oa" and a = "snd oa" and s = s] by simp
    then show ?thesis using Cons.IH [where s = s1] OptNext by (simp split: opt_step.splits)
  next
    case (OptFalse s1)
    then show ?thesis using parse_option_window [where c = "fst oa" and a = "snd oa" and s = s] by simp
  next
    case (OptTrue s1)
    then show ?thesis by simp
  next
    case (OptFault f)
    then show ?thesis by simp
  qed
qed

lemma parse_options_rejects:
  assumes "parse_options pre s = OptNext s1" "parse_option c a s1 = OptFalse s'"
  shows "parse_options (pre @ (c, a) # rest) s = OptFalse s'"
  using assms
proof (induction pre arbitrary: s)
  case Nil
  then show ?case by simp
next
  case (Cons oa pre)
  then show ?case by (cases "parse_option (fst oa) (snd oa) s") simp_all
qed

lemma rejected_option_exit:
  assumes "parse_options pre imv_create = OptNext s" "parse_option c a s = OptFalse s'"
    and "options penv = pre @ (c, a) # rest"
  shows "imv_parse_args penv imv_create = OptFalse s' \<and> imv_main penv renv inps = Exit 1 s' \<and> \<not> window s'"
proof -
  have p: "parse_options (options penv) imv_create = OptFalse s'"
    unfolding assms(3) by (rule parse_options_rejects [OF assms(1,2)])
  have "window s' = window imv_create"
    using parse_options_window [where os = "options penv" and s = imv_create] p by simp
  then have "\<not> window s'" by (simp add: imv_create_def)
  then show ?thesis using p by (simp add: imv_parse_args_def imv_main_def)
qed

lemma strtoul_abc: "strtoul 10 ''abc'' = (0, ''abc'')"
  by (simp add: strtoul_def scan_integer_def skip_sign_def skip_0x_def isspace_def
      is_digit_def digit_of_def Let_def)

lemma strtoul_0x1234: "strtoul 16 ''0x1234'' = (0x1234, [])"
  by (simp add: strtoul_def scan_integer_def skip_sign_def skip_0x_def negative_def isspace_def
      is_digit_def digit_of_def digits_value_def Let_def)

lemma strtoul_5: "strtoul 10 ''5'' = (5, [])"
  by (simp add: strtoul_def scan_integer_def skip_sign_def skip_0x_def negative_def isspace_def
      is_digit_def digit_of_def digits_value_def Let_def)

text \<open>
  Arguments that are not colours or durations and are accepted all the same: the duration
  \<open>abc\<close> is read as 0 and the arguments are accepted; the colour \<open>0x1234\<close>, which is not
  six hexadecimal digits, is read by \<open>strtoul\<close> as a prefix and four digits.
\<close>

theorem lenient_arguments:
  "parse_option CHR ''t'' ''abc'' imv_create = OptNext (imv_create\<lparr>slideshow_image_duration := 0\<rparr>)
   \<and> imv_parse_args \<lparr>options = [(CHR ''t'', ''abc'')], operands = [''a.png''],
                      stdin_image = (None, 0), stdin_lines = []\<rparr> imv_create
       = OptTrue (imv_add_path ''a.png'' (imv_create\<lparr>slideshow_image_duration := 0\<rparr>))
   \<and> parse_option CHR ''b'' ''0x1234'' imv_create
       = OptNext (imv_create\<lparr>background := BACKGROUND_SOLID, background_color := (0, 0x12, 0x34)\<rparr>)"
proof -
  have t: "parse_option CHR ''t'' ''abc'' imv_create = OptNext (imv_create\<lparr>slideshow_image_duration := 0\<rparr>)"
    by (simp add: parse_option_def slideshow_whole strtoul_abc)
  have pf: "\<not> paths_from_stdin (imv_add_path ''a.png'' (imv_create\<lparr>slideshow_image_duration := 0\<rparr>))"
    by (simp add: imv_add_path_def imv_create_def)
  have a: "imv_parse_args \<lparr>options = [(CHR ''t'', ''abc'')], operands = [''a.png''],
                      stdin_image = (None, 0), stdin_lines = []\<rparr> imv_create
       = OptTrue (imv_add_path ''a.png'' (imv_create\<lparr>slideshow_image_duration := 0\<rparr>))"
    using pf by (simp add: imv_parse_args_def t)
  have b: "parse_option CHR ''b'' ''0x1234'' imv_create
       = OptNext (imv_create\<lparr>background := BACKGROUND_SOLID, background_color := (0, 0x12, 0x34)\<rparr>)"
    by (simp add: parse_option_def parse_background_def skip_hash_def strtoul_0x1234 Let_def)
  show ?thesis using t a b by simp
qed

text \<open>
  C6, as amended. After options that were accepted: a colour argument other than \<open>checks\<close>
  is rejected when what follows the optional \<open>#\<close> is not six characters long, or has a
  character that is neither a hexadecimal digit, white space, a sign nor \<open>x\<close>; six
  hexadecimal digits are accepted and stored with r, g and b from the top, middle and
  bottom bytes. A duration with no point after its leading number is never rejected and is
  stored in milliseconds. A rejected option makes \<open>imv_parse_args\<close> return false, and the
  process then exits with code 1 and no window.
\<close>

theorem argument_values_checked:
  assumes "parse_options pre imv_create = OptNext s"
  shows
   "(optarg \<noteq> ''checks'' \<and> length (skip_hash optarg) \<noteq> 6
       \<longrightarrow> (\<exists>s'. parse_option CHR ''b'' optarg s = OptFalse s'))
    \<and> (optarg \<noteq> ''checks'' \<and> x \<in> set (skip_hash optarg) \<and> \<not> is_digit 16 x \<and> \<not> isspace x
          \<and> x \<noteq> CHR ''-'' \<and> x \<noteq> CHR ''+'' \<and> x \<noteq> CHR ''x'' \<and> x \<noteq> CHR ''X''
       \<longrightarrow> (\<exists>s'. parse_option CHR ''b'' optarg s = OptFalse s'))
    \<and> (skip_hash optarg = [c1, c2, c3, c4, c5, c6]
          \<and> digit_of c1 = Some d1 \<and> d1 < 16 \<and> digit_of c2 = Some d2 \<and> d2 < 16
          \<and> digit_of c3 = Some d3 \<and> d3 < 16 \<and> digit_of c4 = Some d4 \<and> d4 < 16
          \<and> digit_of c5 = Some d5 \<and> d5 < 16 \<and> digit_of c6 = Some d6 \<and> d6 < 16
       \<longrightarrow> parse_option CHR ''b'' optarg s =
             OptNext (s\<lparr>background := BACKGROUND_SOLID,
                        background_color :=
                          (of_nat (16 * d1 + d2), of_nat (16 * d3 + d4), of_nat (16 * d5 + d6))\<rparr>))
    \<and> ((case snd (strtoul 10 seconds) of c # r \<Rightarrow> c \<noteq> CHR ''.'' | [] \<Rightarrow> True)
       \<longrightarrow> parse_option CHR ''t'' seconds s =
             OptNext (s\<lparr>slideshow_image_duration := fst (strtoul 10 seconds) * 1000\<rparr>))
    \<and> (parse_option c a s = OptFalse s' \<and> options penv = pre @ (c, a) # rest
       \<longrightarrow> imv_parse_args penv imv_create = OptFalse s'
           \<and> imv_main penv renv inps = Exit 1 s' \<and> \<not> window s')"
proof -
  have b: "parse_option CHR ''b'' optarg s = parse_background optarg s"
    and t: "parse_option CHR ''t'' seconds s = parse_slideshow seconds s"
    by (simp_all add: parse_option_def)
  have "optarg \<noteq> ''checks'' \<and> length (skip_hash optarg) \<noteq> 6
       \<longrightarrow> (\<exists>s'. parse_option CHR ''b'' optarg s = OptFalse s')"
    unfolding b using background_length by blast
  moreover have "optarg \<noteq> ''checks'' \<and> x \<in> set (skip_hash optarg) \<and> \<not> is_digit 16 x \<and> \<not> isspace x
          \<and> x \<noteq> CHR ''-'' \<and> x \<noteq> CHR ''+'' \<and> x \<noteq> CHR ''x'' \<and> x \<noteq> CHR ''X''
       \<longrightarrow> (\<exists>s'. parse_option CHR ''b'' optarg s = OptFalse s')"
    unfolding b using background_foreign by blast
  moreover have "skip_hash optarg = [c1, c2, c3, c4, c5, c6]
          \<and> digit_of c1 = Some d1 \<and> d1 < 16 \<and> digit_of c2 = Some d2 \<and> d2 < 16
          \<and> digit_of c3 = Some d3 \<and> d3 < 16 \<and> digit_of c4 = Some d4 \<and> d4 < 16
          \<and> digit_of c5 = Some d5 \<and> d5 < 16 \<and> digit_of c6 = Some d6 \<and> d6 < 16
       \<longrightarrow> parse_option CHR ''b'' optarg s =
             OptNext (s\<lparr>background := BACKGROUND_SOLID,
                        background_color :=
                          (of_nat (16 * d1 + d2), of_nat (16 * d3 + d4), of_nat (16 * d5 + d6))\<rparr>)"
    unfolding b using background_six_digits by blast
  moreover have "(case snd (strtoul 10 seconds) of c # r \<Rightarrow> c \<noteq> CHR ''.'' | [] \<Rightarrow> True)
       \<longrightarrow> parse_option CHR ''t'' seconds s =
             OptNext (s\<lparr>slideshow_image_duration := fst (strtoul 10 seconds) * 1000\<rparr>)"
    unfolding t using slideshow_whole by blast
  moreover have "parse_option c a s = OptFalse s' \<and> options penv = pre @ (c, a) # rest
       \<longrightarrow> imv_parse_args penv imv_create = OptFalse s'
           \<and> imv_main penv renv inps = Exit 1 s' \<and> \<not> window s'"
    using rejected_option_exit [OF assms] by blast
  ultimately show ?thesis by blast
qed

theorem argument_values_checked_witness:
  "let env = \<lparr>options = [(CHR ''b'', ''ff800'')], operands = [''a.png''],
              stdin_image = (None, 0), stdin_lines = []\<rparr>;
       libs = \<lparr>sdl_ok = True, window_ok = True, renderer_ok = True, font_ok = True,
               errno_einval = False, start_ticks = 0\<rparr>
   in (\<exists>s'. parse_option CHR ''b'' ''ff800'' imv_create = OptFalse s'
          \<and> imv_parse_args env imv_create = OptFalse s'
          \<and> imv_main env libs [] = Exit 1 s' \<and> \<not> window s')
      \<and> (\<exists>s'. parse_option CHR ''b'' ''12g456'' imv_create = OptFalse s')
      \<and> parse_option CHR ''b'' ''#ff8000'' imv_create
          = OptNext (imv_create\<lparr>background := BACKGROUND_SOLID, background_color := (255, 128, 0)\<rparr>)
      \<and> parse_option CHR ''t'' ''5'' imv_create
          = OptNext (imv_create\<lparr>slideshow_image_duration := 5000\<rparr>)"
proof -
  let ?env = "\<lparr>options = [(CHR ''b'', ''ff800'')], operands = [''a.png''],
              stdin_image = (None, 0), stdin_lines = []\<rparr>"
  let ?libs = "\<lparr>sdl_ok = True, window_ok = True, renderer_ok = True, font_ok = True,
               errno_einval = False, start_ticks = 0\<rparr>"
  have h: "parse_options [] imv_create = OptNext imv_create" by simp
  note all = argument_values_checked [OF h]
  note short = all [THEN conjunct1, rule_format]
    and foreign = all [THEN conjunct2, THEN conjunct1, rule_format]
    and six = all [THEN conjunct2, THEN conjunct2, THEN conjunct1, rule_format]
    and whole = all [THEN conjunct2, THEN conjunct2, THEN conjunct2, THEN conjunct1, rule_format]
    and leave = all [THEN conjunct2, THEN conjunct2, THEN conjunct2, THEN conjunct2, rule_format]
  obtain s' where s': "parse_option CHR ''b'' ''ff800'' imv_create = OptFalse s'"
    using short [of "''ff800''"] by (auto simp add: skip_hash_def)
  have "options ?env = [] @ (CHR ''b'', ''ff800'') # []" by simp
  with s' have 1: "imv_parse_args ?env imv_create = OptFalse s'
           \<and> imv_main ?env ?libs [] = Exit 1 s' \<and> \<not> window s'"
    by (intro leave) simp
  have 2: "\<exists>s'. parse_option CHR ''b'' ''12g456'' imv_create = OptFalse s'"
    by (rule foreign [where x = "CHR ''g''"])
       (simp add: skip_hash_def is_digit_def digit_of_def isspace_def)
  have 3: "parse_option CHR ''b'' ''#ff8000'' imv_create
          = OptNext (imv_create\<lparr>background := BACKGROUND_SOLID,
               background_color := (of_nat (16 * 15 + 15), of_nat (16 * 8 + 0), of_nat (16 * 0 + 0))\<rparr>)"
    by (rule six [where ?c1.0 = "CHR ''f''" and ?c2.0 = "CHR ''f''" and ?c3.0 = "CHR ''8''"
          and ?c4.0 = "CHR ''0''" and ?c5.0 = "CHR ''0''" and ?c6.0 = "CHR ''0''"])
       (simp add: skip_hash_def digit_of_def)
  have 4: "parse_option CHR ''t'' ''5'' imv_create
          = OptNext (imv_create\<lparr>slideshow_image_duration := fst (strtoul 10 ''5'') * 1000\<rparr>)"
    by (rule whole) (simp add: strtoul_5)
  show ?thesis
    unfolding Let_def using s' 1 2 3 4 by (auto simp add: strtoul_5)
qed

end
